theory Spec2Isabelle
  imports Main "HOL-Library.Word" "HOL-Library.Signed_Division"
begin

unbundle bit_operations_syntax

section \<open>Coordinate and container arithmetic (util/numeric.h)\<close>

text \<open>
  The scalar helpers of \<^verbatim>\<open>util/numeric.h\<close> work on \<^verbatim>\<open>s32\<close>, a 32-bit two's
  complement integer. Addition and subtraction are modelled with wrap-around. The C++
  operator \<^verbatim>\<open>/\<close> truncates towards zero; it has no result for a zero divisor and
  for \<^verbatim>\<open>INT_MIN / -1\<close>, which is the \<open>None\<close> branch of \<open>s32_div\<close>.
\<close>

type_synonym s32 = "32 word"

definition s32_div :: "s32 \<Rightarrow> s32 \<Rightarrow> s32 option" where
  "s32_div a b =
     (if b = 0 \<or> (a = - (2 ^ 31) \<and> b = - 1) then None
      else Some (word_of_int (sint a sdiv sint b)))"

text \<open>
  \<^verbatim>\<open>inline s32 getContainerPos(s32 p, s32 d)
  { return (p >= 0 ? p : p - d + 1) / d; }\<close>
\<close>

definition getContainerPos :: "s32 \<Rightarrow> s32 \<Rightarrow> s32 option" where
  "getContainerPos p d = s32_div (if 0 \<le>s p then p else p - d + 1) d"

text \<open>
  \<^verbatim>\<open>inline void getContainerPosWithOffset(s32 p, s32 d, s32 &container, s32 &offset)
  { container = (p >= 0 ? p : p - d + 1) / d; offset = p & (d - 1); }\<close>
  The two output parameters are returned as a pair.
\<close>

definition getContainerPosWithOffset :: "s32 \<Rightarrow> s32 \<Rightarrow> (s32 \<times> s32) option" where
  "getContainerPosWithOffset p d =
     (case s32_div (if 0 \<le>s p then p else p - d + 1) d of
        None \<Rightarrow> None
      | Some container \<Rightarrow> Some (container, p AND (d - 1)))"

text \<open>\<^verbatim>\<open>#define rangelim(d, min, max) ((d) < (min) ? (min) : ((d) > (max) ? (max) : (d)))\<close>\<close>

definition rangelim :: "int \<Rightarrow> int \<Rightarrow> int \<Rightarrow> int" where
  "rangelim d mn mx = (if d < mn then mn else if d > mx then mx else d)"

section \<open>Positions, nodes, blocks\<close>

text \<open>
  The vector types \<^verbatim>\<open>v3size\<close> and \<^verbatim>\<open>v2size\<close>, the node type, the block class and
  the constants they use are declared in headers that are absent. Coordinates of these
  vectors are modelled as unbounded integers; the theorems about them therefore speak
  about the coordinate range in which no component overflows.
\<close>

datatype v3size = v3size (X: int) (Y: int) (Z: int)

datatype v2size = v2size (X2: int) (Y2: int)

definition v3_add :: "v3size \<Rightarrow> v3size \<Rightarrow> v3size" where
  "v3_add a b = v3size (X a + X b) (Y a + Y b) (Z a + Z b)"

definition v3_sub :: "v3size \<Rightarrow> v3size \<Rightarrow> v3size" where
  "v3_sub a b = v3size (X a - X b) (Y a - Y b) (Z a - Z b)"

definition v3_scale :: "v3size \<Rightarrow> int \<Rightarrow> v3size" where
  "v3_scale a k = v3size (X a * k) (Y a * k) (Z a * k)"

text \<open>
  Modelled from the spec: \<^verbatim>\<open>MAP_BLOCKSIZE\<close> is defined in \<^verbatim>\<open>constants.h\<close>, which is
  absent. The block edge length is a compile-time constant; the scenarios of the
  specification use the edge length 16.
\<close>

definition MAP_BLOCKSIZE :: int where
  "MAP_BLOCKSIZE = 16"

text \<open>
  Modelled from the spec: \<^verbatim>\<open>getNodeBlockPos\<close> is defined in \<^verbatim>\<open>mapblock.h\<close>, which is
  absent. The block position is the node position divided by the block edge length
  with floor division, per axis. (\<open>div\<close> on \<open>int\<close> is floor division.)
\<close>

definition getNodeBlockPos :: "v3size \<Rightarrow> v3size" where
  "getNodeBlockPos p =
     v3size (X p div MAP_BLOCKSIZE) (Y p div MAP_BLOCKSIZE) (Z p div MAP_BLOCKSIZE)"

text \<open>
  Modelled from the spec: a node is a content identifier plus parameter bytes
  (\<^verbatim>\<open>mapnode.h\<close> is absent). Content identifiers are opaque; two of them are
  distinguished: the ignore placeholder and air.
\<close>

datatype content_t = CONTENT_IGNORE | CONTENT_AIR | CONTENT_ID nat

datatype MapNode = MapNode (getContent: content_t) (param1: "8 word") (param2: "8 word")

text \<open>The one-argument constructor \<^verbatim>\<open>MapNode(content)\<close> zeroes both parameters.\<close>

definition MapNode1 :: "content_t \<Rightarrow> MapNode" where
  "MapNode1 c = MapNode c 0 0"

text \<open>
  Modelled from the spec: a block is a cube of nodes of edge length
  \<^verbatim>\<open>MAP_BLOCKSIZE\<close>, addressed by the offset inside the block, with a flag that tells
  whether its copy on disk is stale. Node metadata, node timers, the reference count
  and the usage timer of a block do not occur in the operations below.
\<close>

datatype ModifiedState = Clean | Dirty

record MapBlock =
  data :: "v3size \<Rightarrow> MapNode"
  m_modified :: ModifiedState

definition getNodeNoCheck :: "MapBlock \<Rightarrow> int \<Rightarrow> int \<Rightarrow> int \<Rightarrow> MapNode" where
  "getNodeNoCheck block x y z = data block (v3size x y z)"

definition setNodeNoCheck :: "MapBlock \<Rightarrow> v3size \<Rightarrow> MapNode \<Rightarrow> MapBlock" where
  "setNodeNoCheck block rel n = block\<lparr>data := (data block)(rel := n)\<rparr>"

definition raiseModified :: "MapBlock \<Rightarrow> MapBlock" where
  "raiseModified block = block\<lparr>m_modified := Dirty\<rparr>"

definition blank_block :: MapBlock where
  "blank_block = \<lparr>data = (\<lambda>_. MapNode1 CONTENT_IGNORE), m_modified = Dirty\<rparr>"

text \<open>A sector is the column of blocks at one (X, Z), keyed by the block's Y.\<close>

type_synonym MapSector = "int \<rightharpoonup> MapBlock"

section \<open>MapEditEvent (struct MapEditEvent)\<close>

datatype MapEditEventType =
    MEET_ADDNODE
  | MEET_REMOVENODE
  | MEET_SWAPNODE
  | MEET_BLOCK_NODE_METADATA_CHANGED
  | MEET_OTHER

text \<open>
  The fields \<^verbatim>\<open>type\<close>, \<^verbatim>\<open>p\<close> and \<^verbatim>\<open>n\<close> are named \<open>ev_type\<close>, \<open>ev_p\<close> and
  \<open>ev_n\<close>. \<^verbatim>\<open>modified_blocks\<close> is a \<^verbatim>\<open>std::vector\<close> that "represents a set".
\<close>

record MapEditEvent =
  ev_type :: MapEditEventType
  ev_p :: v3size
  ev_n :: MapNode
  modified_blocks :: "v3size list"
  is_private_change :: bool

text \<open>\<^verbatim>\<open>MapEditEvent() = default\<close> with the member initialisers of the struct.\<close>

definition MapEditEvent_default :: MapEditEvent where
  "MapEditEvent_default =
     \<lparr>ev_type = MEET_OTHER, ev_p = v3size 0 0 0, ev_n = MapNode1 CONTENT_AIR,
      modified_blocks = [], is_private_change = False\<rparr>"

datatype error = AssertionFailed | InvalidPositionException

text \<open>
  \<^verbatim>\<open>void setPositionModified(v3size pos)
  {
    assert(modified_blocks.empty()); // only meant for initialization (once)
    p = pos;
    modified_blocks.push_back(getNodeBlockPos(pos));
  }\<close>
  A failing assertion is the result \<open>Inl AssertionFailed\<close>.
\<close>

definition setPositionModified :: "MapEditEvent \<Rightarrow> v3size \<Rightarrow> error + MapEditEvent" where
  "setPositionModified e pos =
     (if modified_blocks e \<noteq> [] then Inl AssertionFailed
      else Inr (e\<lparr>ev_p := pos,
                  modified_blocks := modified_blocks e @ [getNodeBlockPos pos]\<rparr>))"

text \<open>
  \<^verbatim>\<open>void setModifiedBlocks(const std::map<v3size, MapBlock *> blocks)
  {
    assert(modified_blocks.empty()); // only meant for initialization (once)
    modified_blocks.reserve(blocks.size());
    for (const auto &block : blocks)
      modified_blocks.push_back(block.first);
  }\<close>
  The \<^verbatim>\<open>std::map\<close> is given as the list of its entries in iteration order.
\<close>

definition setModifiedBlocks ::
  "MapEditEvent \<Rightarrow> (v3size \<times> 'b) list \<Rightarrow> error + MapEditEvent" where
  "setModifiedBlocks e blocks =
     (if modified_blocks e \<noteq> [] then Inl AssertionFailed
      else Inr (e\<lparr>modified_blocks :=
                    fold (\<lambda>block mb. mb @ [fst block]) blocks (modified_blocks e)\<rparr>))"

section \<open>Map (class Map)\<close>

text \<open>
  An observer is known to the map by its address (\<^verbatim>\<open>MapEventReceiver*\<close>). The member
  \<^verbatim>\<open>std::set<MapEventReceiver*> m_event_receivers\<close> is an ordered container of
  unique keys: it is modelled by the strictly ascending list of its elements, which is
  the order in which a \<^verbatim>\<open>std::set\<close> is iterated.
\<close>

type_synonym MapEventReceiver = nat

definition std_set_insert :: "'a::linorder \<Rightarrow> 'a list \<Rightarrow> 'a list" where
  "std_set_insert x xs = (if x \<in> set xs then xs else insort x xs)"

definition std_set_erase :: "'a::linorder \<Rightarrow> 'a list \<Rightarrow> 'a list" where
  "std_set_erase x xs = removeAll x xs"

text \<open>
  The data members of \<^verbatim>\<open>class Map\<close>. \<^verbatim>\<open>m_sectors\<close> owns the sectors. The sector
  cache (\<^verbatim>\<open>m_sector_cache\<close>, \<^verbatim>\<open>m_sector_cache_p\<close>) is a pointer to the sector that
  was resolved last together with its key; the model keeps the key, and the sector it
  points to is the one \<open>m_sectors\<close> holds under that key. \<^verbatim>\<open>m_gamedef\<close> and
  \<^verbatim>\<open>m_nodedef\<close> are not used by the operations below.
\<close>

record Map =
  m_event_receivers :: "MapEventReceiver list"
  m_sectors :: "v2size \<rightharpoonup> MapSector"
  m_sector_cache :: "v2size option"

text \<open>
  Modelled from the spec: the bodies of \<^verbatim>\<open>Map::addEventReceiver\<close>,
  \<^verbatim>\<open>Map::removeEventReceiver\<close> and \<^verbatim>\<open>Map::dispatchEvent\<close> are in \<^verbatim>\<open>map.cpp\<close>,
  which is absent. Registration and removal are by identity, on the
  \<^verbatim>\<open>std::set\<close> declared in the class; dispatch calls \<^verbatim>\<open>onMapEditEvent\<close> on every
  element of that set, synchronously, in the order in which the set is iterated. (A
  \<^verbatim>\<open>std::set\<close> keeps its keys in key order and no record of the order of insertion,
  and the class has no other member that could hold it.) The result of
  \<open>dispatchEvent\<close> is the sequence of calls made, each with the receiver it is made on
  and the event passed.
\<close>

definition addEventReceiver :: "'a Map_scheme \<Rightarrow> MapEventReceiver \<Rightarrow> 'a Map_scheme" where
  "addEventReceiver m event_receiver =
     m\<lparr>m_event_receivers := std_set_insert event_receiver (m_event_receivers m)\<rparr>"

definition removeEventReceiver :: "'a Map_scheme \<Rightarrow> MapEventReceiver \<Rightarrow> 'a Map_scheme" where
  "removeEventReceiver m event_receiver =
     m\<lparr>m_event_receivers := std_set_erase event_receiver (m_event_receivers m)\<rparr>"

definition dispatchEvent ::
  "'a Map_scheme \<Rightarrow> MapEditEvent \<Rightarrow> (MapEventReceiver \<times> MapEditEvent) list" where
  "dispatchEvent m event = map (\<lambda>event_receiver. (event_receiver, event)) (m_event_receivers m)"

text \<open>
  Modelled from the spec: the bodies of \<^verbatim>\<open>Map::getSectorNoGenerate\<close> and
  \<^verbatim>\<open>Map::getBlockNoCreateNoEx\<close> are in \<^verbatim>\<open>map.cpp\<close>, which is absent.
  \<^verbatim>\<open>getSector(pos)\<close> returns the loaded sector or none; it checks the single-entry
  cache first, falls back to the full map, and on a sector-map hit refreshes the cache
  entry. \<^verbatim>\<open>getBlock(pos)\<close> decomposes the position into sector position and vertical
  index, resolves the sector and returns the block or none.
\<close>

definition getSectorNoGenerate ::
  "'a Map_scheme \<Rightarrow> v2size \<Rightarrow> MapSector option \<times> 'a Map_scheme" where
  "getSectorNoGenerate m p2d =
     (if m_sector_cache m = Some p2d then (m_sectors m p2d, m)
      else (case m_sectors m p2d of
              None \<Rightarrow> (None, m)
            | Some sector \<Rightarrow> (Some sector, m\<lparr>m_sector_cache := Some p2d\<rparr>)))"

definition getBlockNoCreateNoEx ::
  "'a Map_scheme \<Rightarrow> v3size \<Rightarrow> MapBlock option \<times> 'a Map_scheme" where
  "getBlockNoCreateNoEx m p3d =
     (let (sector, m') = getSectorNoGenerate m (v2size (X p3d) (Z p3d)) in
      case sector of
        None \<Rightarrow> (None, m')
      | Some s \<Rightarrow> (s (Y p3d), m'))"

text \<open>
  \<^verbatim>\<open>virtual MapBlock * emergeBlock(v3size p, bool create_blank=true)
  { return getBlockNoCreateNoEx(p); }\<close>
\<close>

definition Map_emergeBlock ::
  "'a Map_scheme \<Rightarrow> v3size \<Rightarrow> bool \<Rightarrow> MapBlock option \<times> 'a Map_scheme" where
  "Map_emergeBlock m p create_blank = getBlockNoCreateNoEx m p"

text \<open>
  Storing a block under its position, in the sector of its column; the sector is
  created when the column has none. This is the write that the in-place mutation of a
  block through its pointer, and the insertion of a new block, amount to.
\<close>

definition setBlock :: "'a Map_scheme \<Rightarrow> v3size \<Rightarrow> MapBlock \<Rightarrow> 'a Map_scheme" where
  "setBlock m p3d block =
     (let p2d = v2size (X p3d) (Z p3d);
          sector = (case m_sectors m p2d of None \<Rightarrow> Map.empty | Some s \<Rightarrow> s)
      in m\<lparr>m_sectors := (m_sectors m)(p2d \<mapsto> sector(Y p3d \<mapsto> block))\<rparr>)"

text \<open>
  Modelled from the spec: the bodies of \<^verbatim>\<open>Map::getNode\<close> and \<^verbatim>\<open>Map::setNode\<close> are
  in \<^verbatim>\<open>map.cpp\<close>, which is absent. \<^verbatim>\<open>getNode(p)\<close> returns the node at \<^verbatim>\<open>p\<close>, or
  the ignore placeholder if the containing block is not loaded, and a flag that reports
  whether the position was resolvable to a loaded block. \<^verbatim>\<open>setNode(p, n)\<close> fails with a
  "position not loaded" condition (the header: "throws InvalidPositionException if not
  found") if the containing block is absent; otherwise it writes the node and marks
  the block modified.
\<close>

definition getNode :: "'a Map_scheme \<Rightarrow> v3size \<Rightarrow> (MapNode \<times> bool) \<times> 'a Map_scheme" where
  "getNode m p =
     (let blockpos = getNodeBlockPos p;
          (block, m') = getBlockNoCreateNoEx m blockpos in
      case block of
        None \<Rightarrow> ((MapNode1 CONTENT_IGNORE, False), m')
      | Some b \<Rightarrow>
          (let relpos = v3_sub p (v3_scale blockpos MAP_BLOCKSIZE) in
           ((getNodeNoCheck b (X relpos) (Y relpos) (Z relpos), True), m')))"

definition setNode :: "'a Map_scheme \<Rightarrow> v3size \<Rightarrow> MapNode \<Rightarrow> error option \<times> 'a Map_scheme" where
  "setNode m p n =
     (let blockpos = getNodeBlockPos p;
          (block, m') = getBlockNoCreateNoEx m blockpos in
      case block of
        None \<Rightarrow> (Some InvalidPositionException, m')
      | Some b \<Rightarrow>
          (let relpos = v3_sub p (v3_scale blockpos MAP_BLOCKSIZE) in
           (None, setBlock m' blockpos (raiseModified (setNodeNoCheck b relpos n)))))"

text \<open>
  Modelled from the spec: the bodies of \<^verbatim>\<open>Map::addNodeAndUpdate\<close> and
  \<^verbatim>\<open>Map::addNodeWithEvent\<close> are in \<^verbatim>\<open>map.cpp\<close>, which is absent.
  \<^verbatim>\<open>addNodeAndUpdate\<close> sets the node and returns the blocks whose state could have
  changed, for the base class the directly edited block (lighting is an external
  collaborator, and node metadata is not part of this model).
  \<^verbatim>\<open>addNodeWithEvent\<close> wraps the update call and, on success, constructs a
  MapEditEvent and dispatches it to every registered observer; it returns
  success or failure and dispatches no event on failure. Its result is the returned
  flag, the map, and the sequence of \<^verbatim>\<open>onMapEditEvent\<close> calls made.
\<close>

definition addNodeAndUpdate ::
  "'a Map_scheme \<Rightarrow> v3size \<Rightarrow> MapNode \<Rightarrow> bool
     \<Rightarrow> (error + (v3size \<times> MapBlock) list) \<times> 'a Map_scheme" where
  "addNodeAndUpdate m p n remove_metadata =
     (case setNode m p n of
        (Some e, m') \<Rightarrow> (Inl e, m')
      | (None, m') \<Rightarrow>
          (let blockpos = getNodeBlockPos p;
               (block, m'') = getBlockNoCreateNoEx m' blockpos in
           case block of
             None \<Rightarrow> (Inl InvalidPositionException, m'')
           | Some b \<Rightarrow> (Inr [(blockpos, b)], m'')))"

definition addNodeWithEvent ::
  "'a Map_scheme \<Rightarrow> v3size \<Rightarrow> MapNode \<Rightarrow> bool
     \<Rightarrow> bool \<times> 'a Map_scheme \<times> (MapEventReceiver \<times> MapEditEvent) list" where
  "addNodeWithEvent m p n remove_metadata =
     (let event = MapEditEvent_default\<lparr>ev_type := MEET_ADDNODE, ev_p := p, ev_n := n\<rparr> in
      case addNodeAndUpdate m p n remove_metadata of
        (Inl e, m') \<Rightarrow> (False, m', [])
      | (Inr modified, m') \<Rightarrow>
          (case setModifiedBlocks event modified of
             Inl e \<Rightarrow> (False, m', [])
           | Inr event' \<Rightarrow> (True, m', dispatchEvent m' event')))"

text \<open>
  \<^verbatim>\<open>Map::forEachNodeInArea\<close>. The three loops over the blocks and the three loops over
  the nodes of one block are each written as the list of the values their loop
  variables take, in the order of the source (for the blocks \<^verbatim>\<open>bz\<close> outermost and
  \<^verbatim>\<open>by\<close> innermost; inside a block \<^verbatim>\<open>z_block\<close> outermost and \<^verbatim>\<open>x_block\<close>
  innermost).
\<close>

definition blocks_of_area :: "v3size \<Rightarrow> v3size \<Rightarrow> v3size list" where
  "blocks_of_area minp maxp =
     (let bpmin = getNodeBlockPos minp;
          bpmax = getNodeBlockPos maxp
      in [v3size b_x b_y b_z.
            b_z \<leftarrow> [Z bpmin..Z bpmax], b_x \<leftarrow> [X bpmin..X bpmax], b_y \<leftarrow> [Y bpmin..Y bpmax]])"

definition offsets_in_block :: "v3size \<Rightarrow> v3size \<Rightarrow> v3size \<Rightarrow> v3size list" where
  "offsets_in_block minp maxp bp =
     (let basep = v3_scale bp MAP_BLOCKSIZE;
          minx_block = rangelim (X minp - X basep) 0 (MAP_BLOCKSIZE - 1);
          miny_block = rangelim (Y minp - Y basep) 0 (MAP_BLOCKSIZE - 1);
          minz_block = rangelim (Z minp - Z basep) 0 (MAP_BLOCKSIZE - 1);
          maxx_block = rangelim (X maxp - X basep) 0 (MAP_BLOCKSIZE - 1);
          maxy_block = rangelim (Y maxp - Y basep) 0 (MAP_BLOCKSIZE - 1);
          maxz_block = rangelim (Z maxp - Z basep) 0 (MAP_BLOCKSIZE - 1)
      in [v3size x_block y_block z_block.
            z_block \<leftarrow> [minz_block..maxz_block],
            y_block \<leftarrow> [miny_block..maxy_block],
            x_block \<leftarrow> [minx_block..maxx_block]])"

text \<open>
  The visitor \<^verbatim>\<open>func\<close> is any callable; it may have a state of its own, which it
  reads and changes at each call. It returns whether the traversal goes on.
  \<open>visit_block\<close> is the body of the loops over one block: it returns whether the
  traversal goes on, the visitor's state, and the calls made. \<open>visit_blocks\<close> is the
  loop over the blocks; \<^verbatim>\<open>return\<close> inside the innermost loop leaves all of them.
\<close>

type_synonym 's visitor = "'s \<Rightarrow> v3size \<Rightarrow> MapNode \<Rightarrow> bool \<times> 's"

fun visit_block ::
  "'s visitor \<Rightarrow> MapBlock option \<Rightarrow> v3size \<Rightarrow> v3size list \<Rightarrow> 's
     \<Rightarrow> bool \<times> 's \<times> (v3size \<times> MapNode) list" where
  "visit_block func block basep [] s = (True, s, [])"
| "visit_block func block basep (rel # rels) s =
     (let p = v3_add basep rel;
          n = (case block of
                 Some b \<Rightarrow> getNodeNoCheck b (X rel) (Y rel) (Z rel)
               | None \<Rightarrow> MapNode1 CONTENT_IGNORE);
          (continue, s') = func s p n
      in if \<not> continue then (False, s', [(p, n)])
         else (let (c, s'', calls) = visit_block func block basep rels s'
               in (c, s'', (p, n) # calls)))"

fun visit_blocks ::
  "'s visitor \<Rightarrow> v3size \<Rightarrow> v3size \<Rightarrow> v3size list \<Rightarrow> 'a Map_scheme \<Rightarrow> 's
     \<Rightarrow> bool \<times> 'a Map_scheme \<times> 's \<times> (v3size \<times> MapNode) list" where
  "visit_blocks func minp maxp [] m s = (True, m, s, [])"
| "visit_blocks func minp maxp (bp # bps) m s =
     (let (block, m1) = getBlockNoCreateNoEx m bp;
          basep = v3_scale bp MAP_BLOCKSIZE;
          (continue, s1, calls) =
             visit_block func block basep (offsets_in_block minp maxp bp) s
      in if \<not> continue then (False, m1, s1, calls)
         else (let (c, m2, s2, calls') = visit_blocks func minp maxp bps m1 s1
               in (c, m2, s2, calls @ calls')))"

definition forEachNodeInArea ::
  "'a Map_scheme \<Rightarrow> v3size \<Rightarrow> v3size \<Rightarrow> 's visitor \<Rightarrow> 's
     \<Rightarrow> bool \<times> 'a Map_scheme \<times> 's \<times> (v3size \<times> MapNode) list" where
  "forEachNodeInArea m minp maxp func s =
     visit_blocks func minp maxp (blocks_of_area minp maxp) m s"

section \<open>ServerMap (class ServerMap : public Map)\<close>

text \<open>
  \<^verbatim>\<open>ServerMap\<close> extends \<^verbatim>\<open>Map\<close>. Of its data members the model keeps the saving
  switch, the chunks in progress, and the two databases. A database is, at its
  interface, a key-value store keyed by block position; the value stored is the node
  array of the block. \<open>m_emerge\<close> stands for the queue of the \<^verbatim>\<open>EmergeManager\<close> the map
  points to: the positions handed over for deferred loading or generation.
\<close>

record ServerMap = Map +
  m_emerge :: "v3size list"
  m_map_saving_enabled :: bool
  m_chunks_in_progress :: "v3size list"
  dbase :: "v3size \<rightharpoonup> (v3size \<Rightarrow> MapNode)"
  dbase_ro :: "v3size \<rightharpoonup> (v3size \<Rightarrow> MapNode)"

text \<open>
  Modelled from the spec: the bodies of \<^verbatim>\<open>ServerMap::loadBlock\<close>,
  \<^verbatim>\<open>ServerMap::emergeBlock\<close> and \<^verbatim>\<open>ServerMap::getBlockOrEmerge\<close> are in
  \<^verbatim>\<open>map.cpp\<close>, which is absent. A load asks the primary database and then the
  read-only fallback; a block that is found is inserted into the Block Store as Clean.
  \<^verbatim>\<open>emergeBlock(p, createBlank)\<close>: if loaded, return it; else attempt a disk load; on
  load success return the inserted block; on load failure, if \<^verbatim>\<open>createBlank\<close> is true,
  synthesize a blank block (ignore throughout) marked Dirty and insert it; otherwise
  return none. \<^verbatim>\<open>getBlockOrEmerge(p)\<close>: if loaded, return it; else, if not already
  in the emerge queue, add it to the queue, and return none.
\<close>

definition db_load :: "'a ServerMap_scheme \<Rightarrow> v3size \<Rightarrow> (v3size \<Rightarrow> MapNode) option" where
  "db_load sm p = (case dbase sm p of Some blob \<Rightarrow> Some blob | None \<Rightarrow> dbase_ro sm p)"

definition loadBlock :: "'a ServerMap_scheme \<Rightarrow> v3size \<Rightarrow> MapBlock option \<times> 'a ServerMap_scheme" where
  "loadBlock sm p =
     (case db_load sm p of
        None \<Rightarrow> (None, sm)
      | Some blob \<Rightarrow>
          (let block = \<lparr>data = blob, m_modified = Clean\<rparr>
           in (Some block, setBlock sm p block)))"

definition ServerMap_emergeBlock ::
  "'a ServerMap_scheme \<Rightarrow> v3size \<Rightarrow> bool \<Rightarrow> MapBlock option \<times> 'a ServerMap_scheme" where
  "ServerMap_emergeBlock sm p create_blank =
     (case getBlockNoCreateNoEx sm p of
        (Some block, sm1) \<Rightarrow> (Some block, sm1)
      | (None, sm1) \<Rightarrow>
          (case loadBlock sm1 p of
             (Some block, sm2) \<Rightarrow> (Some block, sm2)
           | (None, sm2) \<Rightarrow>
               (if create_blank then (Some blank_block, setBlock sm2 p blank_block)
                else (None, sm2))))"

definition getBlockOrEmerge ::
  "'a ServerMap_scheme \<Rightarrow> v3size \<Rightarrow> MapBlock option \<times> 'a ServerMap_scheme" where
  "getBlockOrEmerge sm p3d =
     (case getBlockNoCreateNoEx sm p3d of
        (Some block, sm1) \<Rightarrow> (Some block, sm1)
      | (None, sm1) \<Rightarrow>
          (if p3d \<in> set (m_emerge sm1) then (None, sm1)
           else (None, sm1\<lparr>m_emerge := m_emerge sm1 @ [p3d]\<rparr>)))"

section \<open>MMVManip (class MMVManip : public VoxelManipulator)\<close>

text \<open>
  \<^verbatim>\<open>#define VMANIP_BLOCK_DATA_INEXIST     1
  #define VMANIP_BLOCK_CONTAINS_CIGNORE 2\<close>
\<close>

definition VMANIP_BLOCK_DATA_INEXIST :: "8 word" where
  "VMANIP_BLOCK_DATA_INEXIST = 1"

definition VMANIP_BLOCK_CONTAINS_CIGNORE :: "8 word" where
  "VMANIP_BLOCK_CONTAINS_CIGNORE = 2"

text \<open>
  Modelled from the spec: \<^verbatim>\<open>VoxelArea\<close> and \<^verbatim>\<open>VoxelManipulator\<close> are declared in
  \<^verbatim>\<open>voxel.h\<close>, which is absent. The window is an axis-aligned box of node positions
  with a backing linear buffer sized to the box and a parallel buffer of flags; a node
  is addressed by the linear index computed from the box origin and its dimensions.
  A box whose maximum lies below its minimum on some axis has no positions.
\<close>

record VoxelArea =
  MinEdge :: v3size
  MaxEdge :: v3size

definition area_contains :: "VoxelArea \<Rightarrow> v3size \<Rightarrow> bool" where
  "area_contains a p =
     (X (MinEdge a) \<le> X p \<and> X p \<le> X (MaxEdge a) \<and>
      Y (MinEdge a) \<le> Y p \<and> Y p \<le> Y (MaxEdge a) \<and>
      Z (MinEdge a) \<le> Z p \<and> Z p \<le> Z (MaxEdge a))"

definition area_hasData :: "VoxelArea \<Rightarrow> bool" where
  "area_hasData a =
     (X (MinEdge a) \<le> X (MaxEdge a) \<and> Y (MinEdge a) \<le> Y (MaxEdge a) \<and>
      Z (MinEdge a) \<le> Z (MaxEdge a))"

definition area_index :: "VoxelArea \<Rightarrow> v3size \<Rightarrow> nat" where
  "area_index a p =
     (let ex = X (MaxEdge a) - X (MinEdge a) + 1;
          ey = Y (MaxEdge a) - Y (MinEdge a) + 1
      in nat ((Z p - Z (MinEdge a)) * ey * ex + (Y p - Y (MinEdge a)) * ex
              + (X p - X (MinEdge a))))"

definition area_points :: "VoxelArea \<Rightarrow> v3size list" where
  "area_points a =
     [v3size x y z.
        z \<leftarrow> [Z (MinEdge a)..Z (MaxEdge a)],
        y \<leftarrow> [Y (MinEdge a)..Y (MaxEdge a)],
        x \<leftarrow> [X (MinEdge a)..X (MaxEdge a)]]"

definition area_union :: "VoxelArea \<Rightarrow> VoxelArea \<Rightarrow> VoxelArea" where
  "area_union a b =
     \<lparr>MinEdge = v3size (min (X (MinEdge a)) (X (MinEdge b)))
                        (min (Y (MinEdge a)) (Y (MinEdge b)))
                        (min (Z (MinEdge a)) (Z (MinEdge b))),
      MaxEdge = v3size (max (X (MaxEdge a)) (X (MaxEdge b)))
                        (max (Y (MaxEdge a)) (Y (MaxEdge b)))
                        (max (Z (MaxEdge a)) (Z (MaxEdge b)))\<rparr>"

text \<open>
  A map is known to a manipulator by its address (\<^verbatim>\<open>Map *m_map\<close>, "may be null").
  \<^verbatim>\<open>m_loaded_blocks\<close> is a \<^verbatim>\<open>std::map\<close> from block position to the flags that
  describe the block, given as the list of its entries.
\<close>

type_synonym MapRef = nat

record MMVManip =
  m_area :: VoxelArea
  m_data :: "MapNode list"
  m_flags :: "8 word list"
  m_is_dirty :: bool
  m_map :: "MapRef option"
  m_loaded_blocks :: "(v3size \<times> 8 word) list"

text \<open>\<^verbatim>\<open>inline bool isOrphan() const { return !m_map; }\<close>\<close>

definition isOrphan :: "MMVManip \<Rightarrow> bool" where
  "isOrphan vm = (m_map vm = None)"

text \<open>
  Reading the window. A position outside the window, where the caller's contract is
  broken, reads as the ignore placeholder.
\<close>

definition vm_getNode :: "MMVManip \<Rightarrow> v3size \<Rightarrow> MapNode" where
  "vm_getNode vm p =
     (if area_contains (m_area vm) p \<and> area_index (m_area vm) p < length (m_data vm)
      then m_data vm ! area_index (m_area vm) p
      else MapNode1 CONTENT_IGNORE)"

definition vm_getFlags :: "MMVManip \<Rightarrow> v3size \<Rightarrow> 8 word" where
  "vm_getFlags vm p =
     (if area_contains (m_area vm) p \<and> area_index (m_area vm) p < length (m_flags vm)
      then m_flags vm ! area_index (m_area vm) p
      else 0)"

text \<open>
  Modelled from the spec: the bodies of \<^verbatim>\<open>MMVManip::clone\<close>,
  \<^verbatim>\<open>MMVManip::reparent\<close>, \<^verbatim>\<open>MMVManip::initialEmerge\<close> and
  \<^verbatim>\<open>MMVManip::blitBackAll\<close> are in \<^verbatim>\<open>map.cpp\<close>, which is absent.

  \<^verbatim>\<open>clone()\<close> deep-copies the buffer, the flags and the per-block bookkeeping but
  drops the Map association (the header: "the copy will not be associated with a
  Map"); \<^verbatim>\<open>reparent(map)\<close> reattaches an orphan to a Map.
\<close>

definition clone :: "MMVManip \<Rightarrow> MMVManip" where
  "clone vm =
     \<lparr>m_area = m_area vm, m_data = m_data vm, m_flags = m_flags vm,
      m_is_dirty = m_is_dirty vm, m_map = None, m_loaded_blocks = m_loaded_blocks vm\<rparr>"

definition reparent :: "MMVManip \<Rightarrow> MapRef \<Rightarrow> MMVManip" where
  "reparent vm map_ref = vm\<lparr>m_map := Some map_ref\<rparr>"

text \<open>
  \<^verbatim>\<open>initialEmerge(minBlock, maxBlock, loadIfAbsent)\<close> expands the backing buffer to
  cover the block range, and for each covered block either copies its node data from
  the Block Store, loads it from the Persistence Layer, or leaves it flagged as "does
  not exist" with all-ignore content. The source of each covered block is recorded per
  block. Calling it on an orphan is a contract violation that is rejected. The map's
  virtual \<^verbatim>\<open>emergeBlock\<close> is the parameter \<open>emerge\<close>.
\<close>

definition addArea :: "MMVManip \<Rightarrow> VoxelArea \<Rightarrow> MMVManip" where
  "addArea vm a =
     (if \<not> area_hasData a then vm
      else (let new_area = (if area_hasData (m_area vm) then area_union (m_area vm) a else a);
                points = area_points new_area
            in vm\<lparr>m_area := new_area,
                  m_data := map (vm_getNode vm) points,
                  m_flags := map (vm_getFlags vm) points\<rparr>))"

definition copyBlockTo :: "MMVManip \<Rightarrow> v3size \<Rightarrow> MapBlock \<Rightarrow> MMVManip" where
  "copyBlockTo vm p block =
     (let basep = v3_scale p MAP_BLOCKSIZE
      in vm\<lparr>m_data :=
              map (\<lambda>q. if getNodeBlockPos q = p then data block (v3_sub q basep)
                        else vm_getNode vm q)
                  (area_points (m_area vm))\<rparr>)"

definition emerge_one ::
  "('a Map_scheme \<Rightarrow> v3size \<Rightarrow> bool \<Rightarrow> MapBlock option \<times> 'a Map_scheme) \<Rightarrow> bool \<Rightarrow> v3size
     \<Rightarrow> MMVManip \<times> 'a Map_scheme \<Rightarrow> MMVManip \<times> 'a Map_scheme" where
  "emerge_one emerge load_if_inexistent p acc =
     (let (vm, m) = acc in
      if p \<in> fst ` set (m_loaded_blocks vm) then (vm, m)
      else (let (block, m') =
                  (if load_if_inexistent then emerge m p False
                   else getBlockNoCreateNoEx m p)
            in case block of
                 Some b \<Rightarrow>
                   ((copyBlockTo vm p b)
                      \<lparr>m_loaded_blocks := m_loaded_blocks vm @ [(p, 0)]\<rparr>, m')
               | None \<Rightarrow>
                   (vm\<lparr>m_loaded_blocks :=
                         m_loaded_blocks vm @ [(p, VMANIP_BLOCK_DATA_INEXIST)]\<rparr>, m')))"

definition initialEmerge ::
  "('a Map_scheme \<Rightarrow> v3size \<Rightarrow> bool \<Rightarrow> MapBlock option \<times> 'a Map_scheme)
     \<Rightarrow> MMVManip \<Rightarrow> 'a Map_scheme \<Rightarrow> v3size \<Rightarrow> v3size \<Rightarrow> bool
     \<Rightarrow> error + (MMVManip \<times> 'a Map_scheme)" where
  "initialEmerge emerge vm m blockpos_min blockpos_max load_if_inexistent =
     (if isOrphan vm then Inl AssertionFailed
      else (let block_area_nodes =
                  \<lparr>MinEdge = v3_scale blockpos_min MAP_BLOCKSIZE,
                   MaxEdge = v3_add (v3_scale blockpos_max MAP_BLOCKSIZE)
                               (v3size (MAP_BLOCKSIZE - 1) (MAP_BLOCKSIZE - 1)
                                  (MAP_BLOCKSIZE - 1))\<rparr>;
                vm1 = addArea vm block_area_nodes;
                positions =
                  [v3size x y z.
                     z \<leftarrow> [Z blockpos_min..Z blockpos_max],
                     y \<leftarrow> [Y blockpos_min..Y blockpos_max],
                     x \<leftarrow> [X blockpos_min..X blockpos_max]]
            in Inr (fold (emerge_one emerge load_if_inexistent) positions (vm1, m))))"

text \<open>
  \<^verbatim>\<open>blitBackAll(modifiedBlocksOut, overwriteGenerated)\<close>: for every block touched by
  the window, writes the node data back into (or creates in) the Block Store; blocks
  whose prior state was "missing" are filled entirely; blocks whose prior state had
  real content are overwritten node by node only if \<^verbatim>\<open>overwriteGenerated\<close> is true or
  the existing node was the ignore placeholder. Every block that received any write is
  added to \<^verbatim>\<open>modifiedBlocksOut\<close>. Calling it on an orphan is a contract violation that
  is rejected. The prior state of a block is the one recorded for it in
  \<^verbatim>\<open>m_loaded_blocks\<close>.
\<close>

definition block_offsets :: "v3size list" where
  "block_offsets =
     [v3size x y z.
        z \<leftarrow> [0..MAP_BLOCKSIZE - 1], y \<leftarrow> [0..MAP_BLOCKSIZE - 1],
        x \<leftarrow> [0..MAP_BLOCKSIZE - 1]]"

definition blit_block ::
  "MMVManip \<Rightarrow> bool \<Rightarrow> v3size \<times> 8 word \<Rightarrow> 'a Map_scheme \<times> v3size list
     \<Rightarrow> 'a Map_scheme \<times> v3size list" where
  "blit_block vm overwrite_generated loaded_block acc =
     (let (p, flags) = loaded_block;
          (m, modified) = acc;
          basep = v3_scale p MAP_BLOCKSIZE;
          window = (\<lambda>rel. vm_getNode vm (v3_add basep rel));
          (block, m1) = getBlockNoCreateNoEx m p
      in if flags AND VMANIP_BLOCK_DATA_INEXIST \<noteq> 0
         then (setBlock m1 p \<lparr>data = window, m_modified = Dirty\<rparr>, modified @ [p])
         else (case block of
                 None \<Rightarrow>
                   (setBlock m1 p \<lparr>data = window, m_modified = Dirty\<rparr>, modified @ [p])
               | Some b \<Rightarrow>
                   (let written =
                          (\<lambda>rel. overwrite_generated
                                   \<or> getContent (data b rel) = CONTENT_IGNORE)
                    in if list_ex written block_offsets
                       then (setBlock m1 p
                               (raiseModified
                                  (b\<lparr>data := (\<lambda>rel. if written rel then window rel
                                                       else data b rel)\<rparr>)),
                             modified @ [p])
                       else (m1, modified))))"

definition blitBackAll ::
  "MMVManip \<Rightarrow> 'a Map_scheme \<Rightarrow> bool \<Rightarrow> error + ('a Map_scheme \<times> v3size list)" where
  "blitBackAll vm m overwrite_generated =
     (if isOrphan vm then Inl AssertionFailed
      else Inr (fold (blit_block vm overwrite_generated) (m_loaded_blocks vm) (m, [])))"

section \<open>The content of the Block Store\<close>

text \<open>
  What is loaded, independent of the sector cache: the block at a block position, and
  the node at a node position.
\<close>

definition lookupBlock :: "'a Map_scheme \<Rightarrow> v3size \<Rightarrow> MapBlock option" where
  "lookupBlock m p3d =
     (case m_sectors m (v2size (X p3d) (Z p3d)) of
        None \<Rightarrow> None
      | Some s \<Rightarrow> s (Y p3d))"

definition node_or_ignore :: "'a Map_scheme \<Rightarrow> v3size \<Rightarrow> MapNode" where
  "node_or_ignore m p =
     (case lookupBlock m (getNodeBlockPos p) of
        None \<Rightarrow> MapNode1 CONTENT_IGNORE
      | Some b \<Rightarrow> data b (v3_sub p (v3_scale (getNodeBlockPos p) MAP_BLOCKSIZE)))"

definition in_box :: "v3size \<Rightarrow> v3size \<Rightarrow> v3size \<Rightarrow> bool" where
  "in_box minp maxp p =
     (X minp \<le> X p \<and> X p \<le> X maxp \<and>
      Y minp \<le> Y p \<and> Y p \<le> Y maxp \<and>
      Z minp \<le> Z p \<and> Z p \<le> Z maxp)"

section \<open>Example states\<close>

text \<open>
  A server map with one loaded block of air at the origin and one block stored in the
  database, and a manipulator attached to a map, whose window covers two nodes.
\<close>

definition example_block :: MapBlock where
  "example_block = \<lparr>data = (\<lambda>_. MapNode1 CONTENT_AIR), m_modified = Clean\<rparr>"

definition example_ServerMap :: ServerMap where
  "example_ServerMap =
     \<lparr>m_event_receivers = [], 
      m_sectors = [v2size 0 0 \<mapsto> [0 \<mapsto> example_block]],
      m_sector_cache = None,
      m_emerge = [], m_map_saving_enabled = True, m_chunks_in_progress = [],
      dbase = [v3size 1 0 0 \<mapsto> (\<lambda>_. MapNode1 (CONTENT_ID 7))],
      dbase_ro = Map.empty\<rparr>"

definition example_MMVManip :: MMVManip where
  "example_MMVManip =
     \<lparr>m_area = \<lparr>MinEdge = v3size 0 0 0, MaxEdge = v3size 1 0 0\<rparr>,
      m_data = [MapNode1 (CONTENT_ID 3), MapNode1 CONTENT_IGNORE],
      m_flags = [0, 0],
      m_is_dirty = False,
      m_map = Some 1,
      m_loaded_blocks = [(v3size 0 0 0, 0)]\<rparr>"

section \<open>The traversal of an area, as a sequence\<close>

text \<open>
  What the claim about \<^verbatim>\<open>forEachNodeInArea\<close> speaks of: the calls that a traversal
  makes when the visitor never stops it, block by block, and a visitor run over a
  sequence of calls until it returns false.
\<close>

definition block_calls ::
  "'a Map_scheme \<Rightarrow> v3size \<Rightarrow> v3size \<Rightarrow> v3size \<Rightarrow> (v3size \<times> MapNode) list" where
  "block_calls m minp maxp bp =
     map (\<lambda>rel. (v3_add (v3_scale bp MAP_BLOCKSIZE) rel,
                  (case lookupBlock m bp of
                     Some b \<Rightarrow> getNodeNoCheck b (X rel) (Y rel) (Z rel)
                   | None \<Rightarrow> MapNode1 CONTENT_IGNORE)))
         (offsets_in_block minp maxp bp)"

definition area_calls ::
  "'a Map_scheme \<Rightarrow> v3size \<Rightarrow> v3size \<Rightarrow> (v3size \<times> MapNode) list" where
  "area_calls m minp maxp = concat (map (block_calls m minp maxp) (blocks_of_area minp maxp))"

fun run_visitor ::
  "'s visitor \<Rightarrow> (v3size \<times> MapNode) list \<Rightarrow> 's \<Rightarrow> bool \<times> 's \<times> (v3size \<times> MapNode) list" where
  "run_visitor func [] s = (True, s, [])"
| "run_visitor func (c # rest) s =
     (let (continue, s') = func s (fst c) (snd c)
      in if \<not> continue then (False, s', [c])
         else (let (completed, s'', calls) = run_visitor func rest s'
               in (completed, s'', c # calls)))"

text \<open>
  One axis of an area: a block index \<open>b\<close> and an offset \<open>off\<close> that the loops of
  \<^verbatim>\<open>forEachNodeInArea\<close> reach for the bounds \<open>mn\<close> and \<open>mx\<close>; and the three axes
  together.
\<close>

definition axis_ok :: "int \<Rightarrow> int \<Rightarrow> int \<Rightarrow> int \<Rightarrow> bool" where
  "axis_ok mn mx b off =
     (mn div MAP_BLOCKSIZE \<le> b \<and> b \<le> mx div MAP_BLOCKSIZE
      \<and> rangelim (mn - b * MAP_BLOCKSIZE) 0 (MAP_BLOCKSIZE - 1) \<le> off
      \<and> off \<le> rangelim (mx - b * MAP_BLOCKSIZE) 0 (MAP_BLOCKSIZE - 1))"

definition in_area :: "v3size \<Rightarrow> v3size \<Rightarrow> v3size \<Rightarrow> v3size \<Rightarrow> bool" where
  "in_area minp maxp bp rel =
     (axis_ok (X minp) (X maxp) (X bp) (X rel)
      \<and> axis_ok (Y minp) (Y maxp) (Y bp) (Y rel)
      \<and> axis_ok (Z minp) (Z maxp) (Z bp) (Z rel))"

text \<open>
  The bookkeeping of a window agrees with a map when every block that it records as
  missing is absent from the Block Store.
\<close>

definition bookkeeping_agrees :: "MMVManip \<Rightarrow> 'a Map_scheme \<Rightarrow> bool" where
  "bookkeeping_agrees vm m =
     list_all (\<lambda>loaded_block.
                 snd loaded_block AND VMANIP_BLOCK_DATA_INEXIST \<noteq> 0
                 \<longrightarrow> lookupBlock m (fst loaded_block) = None)
              (m_loaded_blocks vm)"

section \<open>Container arithmetic: floor division\<close>

lemma neg_floor_div:
  fixes p d :: int
  assumes "0 < d"
  shows "- ((d - 1 - p) div d) = p div d"
proof -
  define m where "m = (d - 1 - p) div d"
  define r where "r = (d - 1 - p) mod d"
  have split: "d - 1 - p = d * m + r"
    by (simp add: m_def r_def)
  have r: "0 \<le> r" "r < d"
    using assms by (simp_all add: r_def)
  have "p = d * (- m) + (d - 1 - r)"
    using split by (simp add: algebra_simps)
  moreover have "0 \<le> d - 1 - r" "d - 1 - r < d"
    using r by simp_all
  ultimately have "p div d = - m"
    by (rule int_div_pos_eq)
  then show ?thesis by (simp add: m_def)
qed

text \<open>Truncating division of the shifted numerator is floor division.\<close>

lemma trunc_div_floor:
  fixes p d :: int
  assumes "0 < d"
  shows "(if 0 \<le> p then p else p - d + 1) sdiv d = p div d"
proof (cases "0 \<le> p")
  case True
  then show ?thesis using assms by (simp add: signed_divide_int_def sgn_if)
next
  case False
  then have neg: "p < 0" by simp
  have "(p - d + 1) sdiv d = - ((d - 1 - p) div d)"
    using assms neg by (simp add: signed_divide_int_def sgn_if diff_right_commute)
  then show ?thesis using neg neg_floor_div [OF assms, of p] by simp
qed

lemma floor_div_bracket:
  fixes p d :: int
  assumes "0 < d"
  shows "p div d * d \<le> p" and "p < p div d * d + d"
proof -
  have m: "p div d * d + p mod d = p"
    by (rule div_mult_mod_eq)
  have "0 \<le> p mod d" "p mod d < d"
    using assms by simp_all
  with m show "p div d * d \<le> p" and "p < p div d * d + d"
    by linarith+
qed

lemma sint_s32_range: "- (2 ^ 31) \<le> sint (w :: s32) \<and> sint w < 2 ^ 31"
  using sint_ge [of w] sint_lt [of w] by simp

lemma sint_word_of_int_s32:
  "- (2 ^ 31) \<le> k \<Longrightarrow> k < 2 ^ 31 \<Longrightarrow> sint (word_of_int k :: s32) = k"
  by (simp add: sint_sbintrunc' signed_take_bit_int_eq_self)

lemma sint_numerator:
  fixes p d :: s32
  assumes "0 < sint d" "- (2 ^ 31) \<le> sint p - sint d + 1"
  shows "sint (if 0 \<le>s p then p else p - d + 1)
         = (if 0 \<le> sint p then sint p else sint p - sint d + 1)"
proof (cases "0 \<le> sint p")
  case True
  then show ?thesis by (simp add: word_sle_eq)
next
  case False
  have rp: "sint p < 0" using False by simp
  have "p - d + 1 = word_of_int (sint p - sint d + 1)"
    by simp
  moreover have "sint p - sint d + 1 < 2 ^ 31"
    using assms rp by simp
  ultimately have "sint (p - d + 1) = sint p - sint d + 1"
    using assms(2) sint_word_of_int_s32 by metis
  then show ?thesis using False by (simp add: word_sle_eq)
qed

text \<open>
  Whenever the numerator \<open>p - d + 1\<close> stays above \<^verbatim>\<open>INT_MIN\<close>, the division is
  defined and its result is the floor of the quotient.
\<close>

lemma s32_div_numerator_floor:
  fixes p d :: s32
  assumes d: "0 < sint d" and lo: "- (2 ^ 31) \<le> sint p - sint d + 1"
  shows "\<exists>c. s32_div (if 0 \<le>s p then p else p - d + 1) d = Some c
              \<and> sint c = sint p div sint d"
proof -
  let ?q = "if 0 \<le>s p then p else p - d + 1"
  have q: "sint ?q = (if 0 \<le> sint p then sint p else sint p - sint d + 1)"
    by (rule sint_numerator [OF d lo])
  have quot: "sint ?q sdiv sint d = sint p div sint d"
    unfolding q by (rule trunc_div_floor [OF d])
  have d0: "d \<noteq> 0" using d by auto
  have d1: "d \<noteq> - 1" using d by auto
  have d_ge1: "1 \<le> sint d" using d by simp
  have lower: "- (2 ^ 31) \<le> sint p div sint d"
  proof (cases "0 \<le> sint p")
    case True
    then have "0 \<le> sint p div sint d"
      using d by (simp add: pos_imp_zdiv_nonneg_iff)
    then show ?thesis by simp
  next
    case False
    then have "sint p div 1 \<le> sint p div sint d"
      using d_ge1 by (intro zdiv_mono2_neg) simp_all
    then show ?thesis using sint_s32_range [of p] by simp
  qed
  have upper: "sint p div sint d < 2 ^ 31"
  proof (cases "0 \<le> sint p")
    case True
    then have "sint p div sint d \<le> sint p div 1"
      using d_ge1 by (intro zdiv_mono2) simp_all
    then show ?thesis using sint_s32_range [of p] by simp
  next
    case False
    then have "sint p div sint d < 0"
      using d by (simp add: pos_imp_zdiv_neg_iff)
    then show ?thesis by simp
  qed
  show ?thesis
    using d0 d1 quot lower upper
    by (simp add: s32_div_def sint_word_of_int_s32)
qed

text \<open>
  C1. For every node coordinate \<open>p\<close> and positive edge length \<open>d\<close> in the supported
  coordinate range (magnitude at most \<open>2^29\<close>), \<open>getContainerPos p d\<close> returns the
  floor of \<open>p / d\<close>; equivalently \<open>c * d \<le> p < c * d + d\<close> for the result \<open>c\<close>, also
  for negative \<open>p\<close>.
\<close>

theorem getContainerPos_floor:
  fixes p d :: s32
  assumes "0 < sint d" and "sint d \<le> 2 ^ 29"
    and "- (2 ^ 29) \<le> sint p" and "sint p \<le> 2 ^ 29"
  shows "\<exists>c. getContainerPos p d = Some c \<and> sint c = sint p div sint d
           \<and> sint c * sint d \<le> sint p \<and> sint p < sint c * sint d + sint d"
proof -
  have "- (2 ^ 31) \<le> sint p - sint d + 1"
    using assms by simp
  from s32_div_numerator_floor [OF assms(1) this]
  obtain c where c: "getContainerPos p d = Some c" "sint c = sint p div sint d"
    unfolding getContainerPos_def by blast
  show ?thesis
    using c floor_div_bracket [OF assms(1), of "sint p"] by simp
qed

theorem getContainerPos_floor_witness:
  "0 < sint (16 :: s32) \<and> sint (16 :: s32) \<le> 2 ^ 29
   \<and> - (2 ^ 29) \<le> sint (- 17 :: s32) \<and> sint (- 17 :: s32) \<le> 2 ^ 29
   \<and> (\<exists>c. getContainerPos (- 17) 16 = Some c \<and> sint c = - 2
          \<and> sint c * 16 \<le> - 17 \<and> - 17 < sint c * 16 + 16)"
  using getContainerPos_floor [of 16 "- 17"] by simp

section \<open>Container and offset by bitmask\<close>

lemma sint_of_small_uint:
  fixes w :: s32
  assumes "uint w < 2 ^ 31"
  shows "sint w = uint w"
proof -
  have "sint w = signed_take_bit 31 (uint w)"
    by (simp add: sint_uint)
  also have "\<dots> = uint w"
  proof (rule signed_take_bit_int_eq_self)
    show "- (2 ^ 31) \<le> uint w"
      by (rule order_trans [of _ 0]) simp_all
    show "uint w < 2 ^ 31" by (rule assms)
  qed
  finally show ?thesis .
qed

lemma sint_pow2_s32:
  assumes "k < 31"
  shows "sint (2 ^ k :: s32) = 2 ^ k"
proof -
  have pos: "(0 :: s32) < 2 ^ k"
    using assms by (simp add: word_gt_0)
  have u: "uint (2 ^ k :: s32) = 2 ^ k"
    by (rule uint_2p [OF pos])
  have "(2 :: int) ^ k < 2 ^ 31"
    using assms by (intro power_strict_increasing) simp_all
  then show ?thesis using sint_of_small_uint [of "2 ^ k"] u by simp
qed

lemma sint_mask_offset:
  fixes p :: s32
  assumes "k < 31"
  shows "sint (p AND (2 ^ k - 1)) = sint p mod 2 ^ k"
proof -
  have tb: "p AND (2 ^ k - 1) = take_bit k p"
    by (simp add: take_bit_eq_mask mask_eq_exp_minus_1)
  have u: "uint (take_bit k p) = uint p mod 2 ^ k"
    by (simp add: unsigned_take_bit_eq take_bit_int_def)
  have "(2 :: int) ^ k < 2 ^ 31"
    using assms by (intro power_strict_increasing) simp_all
  moreover have "uint p mod 2 ^ k < 2 ^ k"
    by simp
  ultimately have small: "uint (take_bit k p) < 2 ^ 31"
    using u by linarith
  have "uint p = sint p mod 2 ^ 32"
    by (simp add: uint_sint take_bit_int_def)
  moreover have "(2 :: int) ^ k dvd 2 ^ 32"
    using assms by (intro le_imp_power_dvd) simp
  ultimately have "uint p mod 2 ^ k = sint p mod 2 ^ k"
    by (simp add: mod_mod_cancel)
  then show ?thesis
    using sint_of_small_uint [OF small] u tb by simp
qed

text \<open>
  C2 (as amended). For every power-of-two edge length \<open>d = 2^k\<close> that is positive as
  an \<^verbatim>\<open>s32\<close> and every \<open>p\<close> for which the numerator \<open>p - d + 1\<close> stays above
  \<^verbatim>\<open>INT_MIN\<close> (in particular the whole supported coordinate range),
  \<open>getContainerPosWithOffset\<close> yields the container of \<open>getContainerPos\<close> and the
  offset \<open>p AND (d - 1)\<close>, which lies in \<open>[0, d)\<close>, with
  \<open>container * d + offset = p\<close>. For \<open>d = 16\<close> and \<open>p = -1\<close> the container is \<open>-1\<close>
  and the offset is \<open>15\<close>.
\<close>

theorem getContainerPosWithOffset_in_range:
  fixes p d :: s32
  assumes k: "k < 31" and d: "d = 2 ^ k"
    and lo: "- (2 ^ 31) \<le> sint p - sint d + 1"
  shows "(\<exists>container offset.
           getContainerPosWithOffset p d = Some (container, offset)
           \<and> getContainerPos p d = Some container
           \<and> offset = p AND (d - 1)
           \<and> 0 \<le> sint offset \<and> sint offset < sint d
           \<and> sint container * sint d + sint offset = sint p)
         \<and> getContainerPosWithOffset (- 1) 16 = Some (- 1, 15)"
proof -
  have scenario: "getContainerPosWithOffset (- 1) 16 = Some (- 1, 15)"
    by (simp add: getContainerPosWithOffset_def s32_div_def word_sle_eq
          signed_divide_int_def)
  have sd: "sint d = 2 ^ k"
    unfolding d by (rule sint_pow2_s32 [OF k])
  have dpos: "0 < sint d"
    unfolding sd by simp
  from s32_div_numerator_floor [OF dpos lo]
  obtain c where c: "s32_div (if 0 \<le>s p then p else p - d + 1) d = Some c"
    and cv: "sint c = sint p div sint d"
    by blast
  have off: "sint (p AND (d - 1)) = sint p mod sint d"
    using sint_mask_offset [OF k, of p] sd by (simp add: d)
  have "0 \<le> sint p mod sint d" "sint p mod sint d < sint d"
    using dpos by simp_all
  moreover have "sint p div sint d * sint d + sint p mod sint d = sint p"
    by (rule div_mult_mod_eq)
  ultimately show ?thesis
    using c cv off scenario
    by (simp add: getContainerPosWithOffset_def getContainerPos_def)
qed

theorem getContainerPosWithOffset_in_range_witness:
  "(4 :: nat) < 31 \<and> (16 :: s32) = 2 ^ 4
   \<and> - (2 ^ 31) \<le> sint (- 1 :: s32) - sint (16 :: s32) + 1
   \<and> getContainerPosWithOffset (- 1) 16 = Some (- 1, 15)
   \<and> getContainerPos (- 1) 16 = Some (- 1)"
  using getContainerPosWithOffset_in_range [of 4 16 "- 1"]
  by (simp add: getContainerPosWithOffset_def getContainerPos_def s32_div_def
        word_sle_eq signed_divide_int_def)

text \<open>
  The claim does not hold for every \<open>p\<close>: at \<open>p = INT_MIN\<close> and \<open>d = 16\<close> the
  numerator \<open>p - d + 1\<close> leaves the range of \<^verbatim>\<open>s32\<close> (undefined in C++; with
  two's complement wrap-around it becomes positive), and the container returned is
  \<open>134217727\<close> where the floor of \<open>p / d\<close> is \<open>-134217728\<close>.
\<close>

theorem getContainerPosWithOffset_counterexample:
  "getContainerPosWithOffset (- (2 ^ 31)) 16 = Some (134217727, 0)
   \<and> sint (134217727 :: s32) * sint (16 :: s32) + sint (0 :: s32)
       \<noteq> sint (- (2 ^ 31) :: s32)
   \<and> (134217727 :: s32) * 16 + 0 \<noteq> - (2 ^ 31)
   \<and> sint (- (2 ^ 31) :: s32) div sint (16 :: s32) = - 134217728"
  by (simp add: getContainerPosWithOffset_def s32_div_def word_sle_eq signed_divide_int_def)
section \<open>MapEditEvent: the modified blocks\<close>

lemma fold_push_back:
  "fold (\<lambda>block mb. mb @ [fst block]) blocks acc = acc @ map fst blocks"
  by (induction blocks arbitrary: acc) simp_all

lemma MAP_BLOCKSIZE_pos: "0 < MAP_BLOCKSIZE"
  by (simp add: MAP_BLOCKSIZE_def)

lemma getNodeBlockPos_contains:
  "in_box (v3_scale (getNodeBlockPos p) MAP_BLOCKSIZE)
          (v3_add (v3_scale (getNodeBlockPos p) MAP_BLOCKSIZE)
             (v3size (MAP_BLOCKSIZE - 1) (MAP_BLOCKSIZE - 1) (MAP_BLOCKSIZE - 1))) p"
  using floor_div_bracket [OF MAP_BLOCKSIZE_pos, of "X p"]
        floor_div_bracket [OF MAP_BLOCKSIZE_pos, of "Y p"]
        floor_div_bracket [OF MAP_BLOCKSIZE_pos, of "Z p"]
  by (simp add: in_box_def getNodeBlockPos_def v3_scale_def v3_add_def)

text \<open>
  C5. A MapEditEvent whose modified-block set is still empty and that is initialised by
  \<open>setPositionModified pos\<close> has afterwards exactly one modified block, the block
  that contains \<open>pos\<close>; initialised by \<open>setModifiedBlocks\<close> it has exactly the block
  positions supplied. A second initialisation fails the assertion.
\<close>

theorem MapEditEvent_modified_blocks:
  "(modified_blocks e = [] \<longrightarrow>
      (\<exists>e'. setPositionModified e pos = Inr e' \<and> ev_p e' = pos
            \<and> modified_blocks e' = [getNodeBlockPos pos]
            \<and> set (modified_blocks e') = {getNodeBlockPos pos}
            \<and> in_box (v3_scale (getNodeBlockPos pos) MAP_BLOCKSIZE)
                 (v3_add (v3_scale (getNodeBlockPos pos) MAP_BLOCKSIZE)
                    (v3size (MAP_BLOCKSIZE - 1) (MAP_BLOCKSIZE - 1) (MAP_BLOCKSIZE - 1)))
                 pos)
      \<and> (\<exists>e'. setModifiedBlocks e blocks = Inr e'
            \<and> modified_blocks e' = map fst blocks
            \<and> set (modified_blocks e') = fst ` set blocks))
   \<and> (modified_blocks e \<noteq> [] \<longrightarrow>
        setPositionModified e pos = Inl AssertionFailed
        \<and> setModifiedBlocks e blocks = Inl AssertionFailed)"
  using getNodeBlockPos_contains [of pos]
  by (simp add: setPositionModified_def setModifiedBlocks_def fold_push_back)

theorem MapEditEvent_modified_blocks_witness:
  "modified_blocks MapEditEvent_default = []
   \<and> (\<exists>e'. setPositionModified MapEditEvent_default (v3size (- 1) 0 0) = Inr e'
          \<and> ev_p e' = v3size (- 1) 0 0
          \<and> modified_blocks e' = [v3size (- 1) 0 0])
   \<and> (\<exists>e'. setModifiedBlocks MapEditEvent_default
               [(v3size 0 0 0, blank_block), (v3size 0 1 0, blank_block)] = Inr e'
          \<and> modified_blocks e' = [v3size 0 0 0, v3size 0 1 0])
   \<and> modified_blocks (MapEditEvent_default\<lparr>modified_blocks := [v3size 0 0 0]\<rparr>) \<noteq> []
   \<and> setPositionModified (MapEditEvent_default\<lparr>modified_blocks := [v3size 0 0 0]\<rparr>)
        (v3size (- 1) 0 0) = Inl AssertionFailed"
  using MapEditEvent_modified_blocks
          [of MapEditEvent_default "v3size (- 1) 0 0"
              "[(v3size 0 0 0, blank_block), (v3size 0 1 0, blank_block)]"]
        MapEditEvent_modified_blocks
          [of "MapEditEvent_default\<lparr>modified_blocks := [v3size 0 0 0]\<rparr>"
              "v3size (- 1) 0 0" "[] :: (v3size \<times> MapBlock) list"]
  by (auto simp add: MapEditEvent_default_def getNodeBlockPos_def MAP_BLOCKSIZE_def)

section \<open>The Block Store: lookups and writes\<close>

text \<open>
  A lookup returns what the sectors hold and changes at most the sector cache.
\<close>

lemma getSectorNoGenerate_fst: "fst (getSectorNoGenerate m p2d) = m_sectors m p2d"
  by (simp add: getSectorNoGenerate_def split: option.splits)

lemma getSectorNoGenerate_snd:
  "snd (getSectorNoGenerate m p2d)
     = m\<lparr>m_sector_cache := m_sector_cache (snd (getSectorNoGenerate m p2d))\<rparr>"
  by (simp add: getSectorNoGenerate_def split: option.splits)

lemma getBlockNoCreateNoEx_fst: "fst (getBlockNoCreateNoEx m p) = lookupBlock m p"
proof -
  obtain sector m' where g: "getSectorNoGenerate m (v2size (X p) (Z p)) = (sector, m')"
    by (cases "getSectorNoGenerate m (v2size (X p) (Z p))")
  have "sector = m_sectors m (v2size (X p) (Z p))"
    using getSectorNoGenerate_fst [of m "v2size (X p) (Z p)"] g by simp
  then show ?thesis
    using g by (simp add: getBlockNoCreateNoEx_def lookupBlock_def split: option.splits)
qed

lemma getBlockNoCreateNoEx_snd:
  "snd (getBlockNoCreateNoEx m p)
     = m\<lparr>m_sector_cache := m_sector_cache (snd (getBlockNoCreateNoEx m p))\<rparr>"
proof -
  obtain sector m' where g: "getSectorNoGenerate m (v2size (X p) (Z p)) = (sector, m')"
    by (cases "getSectorNoGenerate m (v2size (X p) (Z p))")
  have "m' = m\<lparr>m_sector_cache := m_sector_cache m'\<rparr>"
    using getSectorNoGenerate_snd [of m "v2size (X p) (Z p)"] g by simp
  then show ?thesis
    using g by (simp add: getBlockNoCreateNoEx_def split: option.splits)
qed

lemma lookupBlock_cache_upd [simp]:
  "lookupBlock (m\<lparr>m_sector_cache := c\<rparr>) q = lookupBlock m q"
  by (simp add: lookupBlock_def)

lemma getBlockNoCreateNoEx_sectors:
  "m_sectors (snd (getBlockNoCreateNoEx m p)) = m_sectors m"
  by (subst getBlockNoCreateNoEx_snd) simp

lemma getBlockNoCreateNoEx_receivers:
  "m_event_receivers (snd (getBlockNoCreateNoEx m p)) = m_event_receivers m"
  by (subst getBlockNoCreateNoEx_snd) simp

lemma getBlockNoCreateNoEx_lookup:
  "lookupBlock (snd (getBlockNoCreateNoEx m p)) q = lookupBlock m q"
  by (subst getBlockNoCreateNoEx_snd) simp

lemma getBlockNoCreateNoEx_eq:
  "getBlockNoCreateNoEx m p = (block, m') \<Longrightarrow>
     block = lookupBlock m p \<and> m_sectors m' = m_sectors m
     \<and> m_event_receivers m' = m_event_receivers m
     \<and> (\<forall>q. lookupBlock m' q = lookupBlock m q)"
  using getBlockNoCreateNoEx_fst [of m p] getBlockNoCreateNoEx_sectors [of m p]
        getBlockNoCreateNoEx_receivers [of m p] getBlockNoCreateNoEx_lookup [of m p]
  by simp

lemma lookupBlock_setBlock:
  "lookupBlock (setBlock m p block) q = (if q = p then Some block else lookupBlock m q)"
  by (cases p; cases q) (auto simp add: lookupBlock_def setBlock_def Let_def split: option.splits)

lemma db_load_cache_upd [simp]:
  "db_load (sm\<lparr>m_sector_cache := c\<rparr>) p = db_load sm p"
  by (simp add: db_load_def split: option.splits)

lemma setBlock_fields [simp]:
  "m_event_receivers (setBlock m p b) = m_event_receivers m"
  "m_sector_cache (setBlock m p b) = m_sector_cache m"
  by (simp_all add: setBlock_def Let_def)

lemma setBlock_server_fields [simp]:
  "m_emerge (setBlock sm p b) = m_emerge sm"
  "m_chunks_in_progress (setBlock sm p b) = m_chunks_in_progress sm"
  "m_map_saving_enabled (setBlock sm p b) = m_map_saving_enabled sm"
  "dbase (setBlock sm p b) = dbase sm"
  "dbase_ro (setBlock sm p b) = dbase_ro sm"
  by (simp_all add: setBlock_def Let_def)

lemma setNode_unloaded:
  assumes "lookupBlock m (getNodeBlockPos p) = None"
  shows "setNode m p n = (Some InvalidPositionException, snd (getBlockNoCreateNoEx m (getNodeBlockPos p)))"
proof -
  obtain block m' where g: "getBlockNoCreateNoEx m (getNodeBlockPos p) = (block, m')"
    by (cases "getBlockNoCreateNoEx m (getNodeBlockPos p)")
  have "block = None"
    using getBlockNoCreateNoEx_eq [OF g] assms by simp
  then show ?thesis
    using g by (simp add: setNode_def)
qed

lemma ServerMap_emergeBlock_eq:
  "ServerMap_emergeBlock sm p create_blank =
     (let sm1 = snd (getBlockNoCreateNoEx sm p) in
      case lookupBlock sm p of
        Some block \<Rightarrow> (Some block, sm1)
      | None \<Rightarrow>
          (case db_load sm1 p of
             Some blob \<Rightarrow>
               (Some \<lparr>data = blob, m_modified = Clean\<rparr>,
                setBlock sm1 p \<lparr>data = blob, m_modified = Clean\<rparr>)
           | None \<Rightarrow>
               (if create_blank then (Some blank_block, setBlock sm1 p blank_block)
                else (None, sm1))))"
proof -
  obtain block sm1 where g: "getBlockNoCreateNoEx sm p = (block, sm1)"
    by (cases "getBlockNoCreateNoEx sm p")
  have "block = lookupBlock sm p"
    using getBlockNoCreateNoEx_eq [OF g] by simp
  then show ?thesis
    using g
    by (simp add: ServerMap_emergeBlock_def loadBlock_def Let_def split: option.splits)
qed

text \<open>\<open>getNode\<close> reads the content of the store, and reports whether the block is loaded.\<close>

lemma getNode_node_or_ignore:
  "fst (getNode m p)
     = (node_or_ignore m p, lookupBlock m (getNodeBlockPos p) \<noteq> None)"
proof -
  obtain block m' where g: "getBlockNoCreateNoEx m (getNodeBlockPos p) = (block, m')"
    by (cases "getBlockNoCreateNoEx m (getNodeBlockPos p)")
  have "block = lookupBlock m (getNodeBlockPos p)"
    using getBlockNoCreateNoEx_eq [OF g] by simp
  then show ?thesis
    using g
    by (simp add: getNode_def node_or_ignore_def getNodeNoCheck_def Let_def
          split: option.splits)
qed

section \<open>Map and ServerMap: emerge and setNode\<close>

text \<open>
  C10. The base class \<open>Map_emergeBlock\<close> is \<open>getBlockNoCreateNoEx\<close> for every
  position and either value of \<open>create_blank\<close>: it returns the loaded block or none
  and leaves the sectors as they are. On a position that is not loaded it returns none,
  where the override of the server map, asked to create a blank block, returns a block.
\<close>

theorem Map_emergeBlock_is_getBlockNoCreateNoEx:
  "Map_emergeBlock m p create_blank = getBlockNoCreateNoEx m p
   \<and> fst (Map_emergeBlock m p create_blank) = lookupBlock m p
   \<and> m_sectors (snd (Map_emergeBlock m p create_blank)) = m_sectors m
   \<and> (\<forall>q. lookupBlock (snd (Map_emergeBlock m p create_blank)) q = lookupBlock m q)
   \<and> (lookupBlock sm p = None \<longrightarrow>
        fst (Map_emergeBlock sm p True) = None
        \<and> fst (ServerMap_emergeBlock sm p True) \<noteq> None)"
  using getBlockNoCreateNoEx_fst [of m p] getBlockNoCreateNoEx_sectors [of m p]
        getBlockNoCreateNoEx_lookup [of m] getBlockNoCreateNoEx_fst [of sm p]
  by (simp add: Map_emergeBlock_def ServerMap_emergeBlock_eq Let_def split: option.splits)

theorem Map_emergeBlock_is_getBlockNoCreateNoEx_witness:
  "lookupBlock example_ServerMap (v3size 0 1 0) = None
   \<and> fst (Map_emergeBlock example_ServerMap (v3size 0 1 0) True) = None
   \<and> fst (Map_emergeBlock example_ServerMap (v3size 0 1 0) False) = None
   \<and> fst (ServerMap_emergeBlock example_ServerMap (v3size 0 1 0) True) \<noteq> None"
proof -
  have h: "lookupBlock example_ServerMap (v3size 0 1 0) = None"
    by (simp add: lookupBlock_def example_ServerMap_def)
  show ?thesis
    using h Map_emergeBlock_is_getBlockNoCreateNoEx
              [of example_ServerMap "v3size 0 1 0" False example_ServerMap]
            Map_emergeBlock_is_getBlockNoCreateNoEx
              [of example_ServerMap "v3size 0 1 0" True example_ServerMap]
    by simp
qed

text \<open>
  C6. For every node position whose containing block is not loaded, \<open>setNode\<close> fails
  with the position-not-loaded condition and leaves the map as it is: no block is
  created, no node is written and no block is marked modified. The sectors and the
  observers are the same; the state differs from the prior one at most in the sector
  cache, which the lookup may refresh.
\<close>

theorem setNode_unloaded_is_noop:
  assumes "lookupBlock m (getNodeBlockPos p) = None"
  shows "fst (setNode m p n) = Some InvalidPositionException
         \<and> m_sectors (snd (setNode m p n)) = m_sectors m
         \<and> (\<forall>q. lookupBlock (snd (setNode m p n)) q = lookupBlock m q)
         \<and> m_event_receivers (snd (setNode m p n)) = m_event_receivers m
         \<and> snd (setNode m p n) = m\<lparr>m_sector_cache := m_sector_cache (snd (setNode m p n))\<rparr>"
  using setNode_unloaded [OF assms, of n]
        getBlockNoCreateNoEx_sectors [of m "getNodeBlockPos p"]
        getBlockNoCreateNoEx_lookup [of m "getNodeBlockPos p"]
        getBlockNoCreateNoEx_receivers [of m "getNodeBlockPos p"]
        getBlockNoCreateNoEx_snd [of m "getNodeBlockPos p"]
  by simp

theorem setNode_unloaded_is_noop_witness:
  "lookupBlock example_ServerMap (getNodeBlockPos (v3size 5 (- 3) 7)) = None
   \<and> fst (setNode example_ServerMap (v3size 5 (- 3) 7) (MapNode1 CONTENT_AIR))
        = Some InvalidPositionException
   \<and> m_sectors (snd (setNode example_ServerMap (v3size 5 (- 3) 7) (MapNode1 CONTENT_AIR)))
        = m_sectors example_ServerMap
   \<and> lookupBlock (snd (setNode example_ServerMap (v3size 5 (- 3) 7) (MapNode1 CONTENT_AIR)))
        (getNodeBlockPos (v3size 5 (- 3) 7)) = None"
proof -
  have h: "lookupBlock example_ServerMap (getNodeBlockPos (v3size 5 (- 3) 7)) = None"
    by (simp add: lookupBlock_def example_ServerMap_def getNodeBlockPos_def MAP_BLOCKSIZE_def)
  show ?thesis
    using h setNode_unloaded_is_noop [OF h, of "MapNode1 CONTENT_AIR"]
    by simp
qed

text \<open>
  C8. \<open>ServerMap_emergeBlock p create_blank\<close> returns the block if it is loaded;
  otherwise it attempts a load, and on success inserts the loaded block as Clean and
  returns it; on failure, if \<open>create_blank\<close> is true, it inserts and returns a blank
  block (ignore throughout, Dirty), and otherwise returns none. It never adds to the
  emerge queue or to the chunks in progress, and writes to no database.
\<close>

theorem ServerMap_emergeBlock_cases:
  "(let (result, sm') = ServerMap_emergeBlock sm p create_blank in
      (\<forall>b. lookupBlock sm p = Some b \<longrightarrow>
            result = Some b \<and> (\<forall>q. lookupBlock sm' q = lookupBlock sm q))
    \<and> (\<forall>blob. lookupBlock sm p = None \<and> db_load sm p = Some blob \<longrightarrow>
            result = Some \<lparr>data = blob, m_modified = Clean\<rparr>
            \<and> lookupBlock sm' p = result
            \<and> (\<forall>q. q \<noteq> p \<longrightarrow> lookupBlock sm' q = lookupBlock sm q))
    \<and> (lookupBlock sm p = None \<and> db_load sm p = None \<and> create_blank \<longrightarrow>
            result = Some blank_block
            \<and> m_modified blank_block = Dirty
            \<and> (\<forall>rel. getContent (data blank_block rel) = CONTENT_IGNORE)
            \<and> lookupBlock sm' p = result
            \<and> (\<forall>q. q \<noteq> p \<longrightarrow> lookupBlock sm' q = lookupBlock sm q))
    \<and> (lookupBlock sm p = None \<and> db_load sm p = None \<and> \<not> create_blank \<longrightarrow>
            result = None \<and> (\<forall>q. lookupBlock sm' q = lookupBlock sm q))
    \<and> m_emerge sm' = m_emerge sm
    \<and> m_chunks_in_progress sm' = m_chunks_in_progress sm
    \<and> dbase sm' = dbase sm \<and> dbase_ro sm' = dbase_ro sm)"
proof -
  define sm1 where "sm1 = snd (getBlockNoCreateNoEx sm p)"
  have sm1: "sm1 = sm\<lparr>m_sector_cache := m_sector_cache sm1\<rparr>"
    unfolding sm1_def by (rule getBlockNoCreateNoEx_snd)
  have f: "m_emerge sm1 = m_emerge sm" "m_chunks_in_progress sm1 = m_chunks_in_progress sm"
    "dbase sm1 = dbase sm" "dbase_ro sm1 = dbase_ro sm"
    "db_load sm1 p = db_load sm p" "\<And>q. lookupBlock sm1 q = lookupBlock sm q"
    by (subst sm1, simp)+
  have blank: "m_modified blank_block = Dirty"
    "\<And>rel. getContent (data blank_block rel) = CONTENT_IGNORE"
    by (simp_all add: blank_block_def MapNode1_def)
  show ?thesis
    unfolding ServerMap_emergeBlock_eq sm1_def [symmetric] Let_def
    by (cases "lookupBlock sm p"; cases "db_load sm p"; cases create_blank)
       (simp_all add: f blank lookupBlock_setBlock)
qed

theorem ServerMap_emergeBlock_cases_witness:
  "lookupBlock example_ServerMap (v3size 0 0 0) = Some example_block
   \<and> fst (ServerMap_emergeBlock example_ServerMap (v3size 0 0 0) True) = Some example_block
   \<and> lookupBlock example_ServerMap (v3size 1 0 0) = None
   \<and> db_load example_ServerMap (v3size 1 0 0) = Some (\<lambda>_. MapNode1 (CONTENT_ID 7))
   \<and> fst (ServerMap_emergeBlock example_ServerMap (v3size 1 0 0) False)
        = Some \<lparr>data = (\<lambda>_. MapNode1 (CONTENT_ID 7)), m_modified = Clean\<rparr>
   \<and> lookupBlock example_ServerMap (v3size 0 1 0) = None
   \<and> db_load example_ServerMap (v3size 0 1 0) = None
   \<and> fst (ServerMap_emergeBlock example_ServerMap (v3size 0 1 0) True) = Some blank_block
   \<and> lookupBlock (snd (ServerMap_emergeBlock example_ServerMap (v3size 0 1 0) True))
        (v3size 0 1 0) = Some blank_block
   \<and> fst (ServerMap_emergeBlock example_ServerMap (v3size 0 1 0) False) = None"
proof -
  have h: "lookupBlock example_ServerMap (v3size 0 0 0) = Some example_block"
    "lookupBlock example_ServerMap (v3size 1 0 0) = None"
    "db_load example_ServerMap (v3size 1 0 0) = Some (\<lambda>_. MapNode1 (CONTENT_ID 7))"
    "lookupBlock example_ServerMap (v3size 0 1 0) = None"
    "db_load example_ServerMap (v3size 0 1 0) = None"
    by (simp_all add: lookupBlock_def db_load_def example_ServerMap_def)
  show ?thesis
    using h
      ServerMap_emergeBlock_cases [of example_ServerMap "v3size 0 0 0" True]
      ServerMap_emergeBlock_cases [of example_ServerMap "v3size 1 0 0" False]
      ServerMap_emergeBlock_cases [of example_ServerMap "v3size 0 1 0" True]
      ServerMap_emergeBlock_cases [of example_ServerMap "v3size 0 1 0" False]
    by (simp add: case_prod_unfold Let_def)
qed

section \<open>MMVManip: blitBackAll, clone, reparent\<close>

lemma blit_block_preserves:
  assumes b: "lookupBlock m bp = Some b"
    and n: "getContent (data b off) \<noteq> CONTENT_IGNORE"
    and fl: "q = bp \<longrightarrow> fl AND VMANIP_BLOCK_DATA_INEXIST = 0"
  shows "\<exists>b'. lookupBlock (fst (blit_block vm False (q, fl) (m, mods))) bp = Some b'
              \<and> data b' off = data b off"
proof -
  obtain block m1 where g: "getBlockNoCreateNoEx m q = (block, m1)"
    by (cases "getBlockNoCreateNoEx m q")
  have blk: "block = lookupBlock m q" and m1: "\<And>r. lookupBlock m1 r = lookupBlock m r"
    using getBlockNoCreateNoEx_eq [OF g] by simp_all
  show ?thesis
  proof (cases "q = bp")
    case True
    then show ?thesis
      using g blk m1 b n fl
      by (simp add: blit_block_def Let_def lookupBlock_setBlock raiseModified_def)
  next
    case False
    then show ?thesis
      using g blk m1 b
      by (simp add: blit_block_def Let_def lookupBlock_setBlock split: option.splits)
  qed
qed

lemma fold_blit_block_preserves:
  assumes "\<forall>fl. (bp, fl) \<in> set xs \<longrightarrow> fl AND VMANIP_BLOCK_DATA_INEXIST = 0"
    and "lookupBlock m bp = Some b"
    and "getContent (data b off) \<noteq> CONTENT_IGNORE"
  shows "\<exists>b'. lookupBlock (fst (fold (blit_block vm False) xs (m, mods))) bp = Some b'
              \<and> data b' off = data b off"
  using assms
proof (induction xs arbitrary: m mods b)
  case Nil
  then show ?case by simp
next
  case (Cons x xs)
  obtain q fl where x: "x = (q, fl)" by (cases x)
  obtain m2 mods2 where step: "blit_block vm False (q, fl) (m, mods) = (m2, mods2)"
    by (cases "blit_block vm False (q, fl) (m, mods)")
  have "q = bp \<longrightarrow> fl AND VMANIP_BLOCK_DATA_INEXIST = 0"
    using Cons.prems(1) x by simp
  from blit_block_preserves [OF Cons.prems(2) Cons.prems(3) this, of vm mods]
  obtain b2 where b2: "lookupBlock m2 bp = Some b2" "data b2 off = data b off"
    using step by auto
  have "\<forall>fl. (bp, fl) \<in> set xs \<longrightarrow> fl AND VMANIP_BLOCK_DATA_INEXIST = 0"
    using Cons.prems(1) by simp
  moreover have "getContent (data b2 off) \<noteq> CONTENT_IGNORE"
    using b2 Cons.prems(3) by simp
  ultimately obtain b' where
    "lookupBlock (fst (fold (blit_block vm False) xs (m2, mods2))) bp = Some b'"
    "data b' off = data b2 off"
    using Cons.IH [OF _ b2(1), of mods2] by blast
  then show ?case
    using x step b2 by simp
qed




lemma vm_getNode_clone [simp]:
  "vm_getNode (clone vm) p = vm_getNode vm p"
  "vm_getNode (reparent vm map_ref) p = vm_getNode vm p"
  by (simp_all add: vm_getNode_def clone_def reparent_def)

lemma blit_block_clone:
  "blit_block (reparent (clone vm) map_ref) og = blit_block vm og"
  by (intro ext) (simp add: blit_block_def)

text \<open>
  C9. \<open>clone\<close> produces a copy with the same contents that is not associated with
  any map; \<open>initialEmerge\<close> and \<open>blitBackAll\<close> on an orphan are rejected with a
  failed assertion, and are not rejected otherwise; \<open>reparent\<close> makes the manipulator
  non-orphan and keeps its contents, so that a reattached clone writes back what the
  original would.
\<close>

theorem clone_orphan_contract:
  "isOrphan (clone vm)
   \<and> m_area (clone vm) = m_area vm \<and> m_data (clone vm) = m_data vm
   \<and> m_flags (clone vm) = m_flags vm \<and> m_loaded_blocks (clone vm) = m_loaded_blocks vm
   \<and> m_is_dirty (clone vm) = m_is_dirty vm
   \<and> (\<forall>q. vm_getNode (clone vm) q = vm_getNode vm q)
   \<and> (isOrphan v \<longrightarrow>
        initialEmerge emerge v m blockpos_min blockpos_max load_if_inexistent
          = Inl AssertionFailed
        \<and> blitBackAll v m overwrite_generated = Inl AssertionFailed)
   \<and> (\<not> isOrphan v \<longrightarrow>
        (\<exists>r. initialEmerge emerge v m blockpos_min blockpos_max load_if_inexistent = Inr r)
        \<and> (\<exists>r. blitBackAll v m overwrite_generated = Inr r))
   \<and> \<not> isOrphan (reparent v map_ref)
   \<and> m_map (reparent v map_ref) = Some map_ref
   \<and> m_area (reparent v map_ref) = m_area v \<and> m_data (reparent v map_ref) = m_data v
   \<and> m_flags (reparent v map_ref) = m_flags v
   \<and> m_loaded_blocks (reparent v map_ref) = m_loaded_blocks v
   \<and> (\<not> isOrphan vm \<longrightarrow>
        blitBackAll (reparent (clone vm) map_ref) m overwrite_generated
          = blitBackAll vm m overwrite_generated)"
proof -
  have copy: "isOrphan (clone vm)"
    "m_area (clone vm) = m_area vm" "m_data (clone vm) = m_data vm"
    "m_flags (clone vm) = m_flags vm" "m_loaded_blocks (clone vm) = m_loaded_blocks vm"
    "m_is_dirty (clone vm) = m_is_dirty vm"
    by (simp_all add: clone_def isOrphan_def)
  have rejected: "isOrphan v \<longrightarrow>
        initialEmerge emerge v m blockpos_min blockpos_max load_if_inexistent
          = Inl AssertionFailed
        \<and> blitBackAll v m overwrite_generated = Inl AssertionFailed"
    by (simp add: initialEmerge_def blitBackAll_def)
  have accepted: "\<not> isOrphan v \<longrightarrow>
        (\<exists>r. initialEmerge emerge v m blockpos_min blockpos_max load_if_inexistent = Inr r)
        \<and> (\<exists>r. blitBackAll v m overwrite_generated = Inr r)"
    by (simp add: initialEmerge_def blitBackAll_def Let_def)
  have re: "\<not> isOrphan (reparent v map_ref)" "m_map (reparent v map_ref) = Some map_ref"
    "m_area (reparent v map_ref) = m_area v" "m_data (reparent v map_ref) = m_data v"
    "m_flags (reparent v map_ref) = m_flags v"
    "m_loaded_blocks (reparent v map_ref) = m_loaded_blocks v"
    by (simp_all add: reparent_def isOrphan_def)
  have "m_loaded_blocks (reparent (clone vm) map_ref) = m_loaded_blocks vm"
    "\<not> isOrphan (reparent (clone vm) map_ref)"
    by (simp_all add: reparent_def clone_def isOrphan_def)
  then have restore: "\<not> isOrphan vm \<longrightarrow>
        blitBackAll (reparent (clone vm) map_ref) m overwrite_generated
          = blitBackAll vm m overwrite_generated"
    by (simp add: blitBackAll_def blit_block_clone)
  show ?thesis
    using copy rejected accepted re restore by simp
qed

theorem clone_orphan_contract_witness:
  "\<not> isOrphan example_MMVManip
   \<and> (\<exists>r. blitBackAll example_MMVManip example_ServerMap True = Inr r)
   \<and> isOrphan (clone example_MMVManip)
   \<and> m_data (clone example_MMVManip) = m_data example_MMVManip
   \<and> blitBackAll (clone example_MMVManip) example_ServerMap True = Inl AssertionFailed
   \<and> initialEmerge Map_emergeBlock (clone example_MMVManip) example_ServerMap
        (v3size 0 0 0) (v3size 0 0 0) True = Inl AssertionFailed
   \<and> \<not> isOrphan (reparent (clone example_MMVManip) 2)
   \<and> (\<exists>r. blitBackAll (reparent (clone example_MMVManip) 2) example_ServerMap True = Inr r)"
proof -
  have h: "\<not> isOrphan example_MMVManip"
    by (simp add: isOrphan_def example_MMVManip_def)
  show ?thesis
    using h
      clone_orphan_contract [of example_MMVManip example_MMVManip Map_emergeBlock
         example_ServerMap "v3size 0 0 0" "v3size 0 0 0" True True 2]
      clone_orphan_contract [of example_MMVManip "clone example_MMVManip" Map_emergeBlock
         example_ServerMap "v3size 0 0 0" "v3size 0 0 0" True True 2]
      clone_orphan_contract [of example_MMVManip "reparent (clone example_MMVManip) 2"
         Map_emergeBlock example_ServerMap "v3size 0 0 0" "v3size 0 0 0" True True 2]
    by simp
qed

section \<open>MMVManip: the bookkeeping after initialEmerge\<close>

text \<open>
  \<open>initialEmerge\<close> keeps the agreement of the bookkeeping with the map, for the
  \<open>emergeBlock\<close> of the base class and of the server map: an emerge without blank
  creation returns what the store holds at the position afterwards and leaves every
  other position alone.
\<close>

lemma emerge_one_agrees:
  assumes e1: "\<And>m p. lookupBlock (snd (emerge m p False)) p = fst (emerge m p False)"
    and e2: "\<And>m p q. q \<noteq> p \<Longrightarrow> lookupBlock (snd (emerge m p False)) q = lookupBlock m q"
    and a: "bookkeeping_agrees vm m"
  shows "bookkeeping_agrees (fst (emerge_one emerge load_if_inexistent p (vm, m)))
           (snd (emerge_one emerge load_if_inexistent p (vm, m)))"
proof (cases "p \<in> fst ` set (m_loaded_blocks vm)")
  case True
  then show ?thesis using a by (simp add: emerge_one_def)
next
  case False
  define r where "r = (if load_if_inexistent then emerge m p False
                       else getBlockNoCreateNoEx m p)"
  have at_p: "lookupBlock (snd r) p = fst r"
    using e1 by (simp add: r_def getBlockNoCreateNoEx_fst getBlockNoCreateNoEx_lookup)
  have other: "\<And>q. q \<noteq> p \<Longrightarrow> lookupBlock (snd r) q = lookupBlock m q"
    using e2 by (simp add: r_def getBlockNoCreateNoEx_lookup)
  have old: "list_all (\<lambda>lb. snd lb AND VMANIP_BLOCK_DATA_INEXIST \<noteq> 0
                              \<longrightarrow> lookupBlock (snd r) (fst lb) = None)
               (m_loaded_blocks vm)"
    unfolding list_all_iff
  proof
    fix lb assume lb: "lb \<in> set (m_loaded_blocks vm)"
    then have "fst lb \<noteq> p" using False by auto
    then have "lookupBlock (snd r) (fst lb) = lookupBlock m (fst lb)"
      by (rule other)
    then show "snd lb AND VMANIP_BLOCK_DATA_INEXIST \<noteq> 0
               \<longrightarrow> lookupBlock (snd r) (fst lb) = None"
      using a lb by (simp add: bookkeeping_agrees_def list_all_iff)
  qed
  have eq: "emerge_one emerge load_if_inexistent p (vm, m) =
              (case fst r of
                 Some b \<Rightarrow>
                   ((copyBlockTo vm p b)\<lparr>m_loaded_blocks := m_loaded_blocks vm @ [(p, 0)]\<rparr>,
                    snd r)
               | None \<Rightarrow>
                   (vm\<lparr>m_loaded_blocks :=
                         m_loaded_blocks vm @ [(p, VMANIP_BLOCK_DATA_INEXIST)]\<rparr>, snd r))"
    using False unfolding r_def
    by (simp add: emerge_one_def Let_def case_prod_unfold split: option.splits)
  show ?thesis
  proof (cases "fst r")
    case None
    then show ?thesis
      unfolding eq using old at_p by (simp add: bookkeeping_agrees_def)
  next
    case (Some b)
    then show ?thesis
      unfolding eq using old by (simp add: bookkeeping_agrees_def copyBlockTo_def Let_def)
  qed
qed

lemma fold_emerge_one_agrees:
  assumes e1: "\<And>m p. lookupBlock (snd (emerge m p False)) p = fst (emerge m p False)"
    and e2: "\<And>m p q. q \<noteq> p \<Longrightarrow> lookupBlock (snd (emerge m p False)) q = lookupBlock m q"
    and "bookkeeping_agrees (fst acc) (snd acc)"
  shows "bookkeeping_agrees
           (fst (fold (emerge_one emerge load_if_inexistent) ps acc))
           (snd (fold (emerge_one emerge load_if_inexistent) ps acc))"
  using assms(3)
proof (induction ps arbitrary: acc)
  case Nil
  then show ?case by simp
next
  case (Cons p ps)
  have "bookkeeping_agrees (fst (emerge_one emerge load_if_inexistent p acc))
           (snd (emerge_one emerge load_if_inexistent p acc))"
    using emerge_one_agrees [of emerge "fst acc" "snd acc", OF e1 e2] Cons.prems by simp
  from Cons.IH [OF this] show ?case by simp
qed

lemma initialEmerge_agrees:
  assumes e1: "\<And>m p. lookupBlock (snd (emerge m p False)) p = fst (emerge m p False)"
    and e2: "\<And>m p q. q \<noteq> p \<Longrightarrow> lookupBlock (snd (emerge m p False)) q = lookupBlock m q"
    and "bookkeeping_agrees vm m"
    and "initialEmerge emerge vm m blockpos_min blockpos_max load_if_inexistent = Inr (vm', m')"
  shows "bookkeeping_agrees vm' m'"
proof -
  have "m_loaded_blocks (addArea vm a) = m_loaded_blocks vm" for a
    by (simp add: addArea_def Let_def)
  then have "bookkeeping_agrees (addArea vm a) m" for a
    using assms(3) by (simp add: bookkeeping_agrees_def)
  moreover obtain ps a where
    "fold (emerge_one emerge load_if_inexistent) ps (addArea vm a, m) = (vm', m')"
    using assms(4) by (auto simp add: initialEmerge_def Let_def split: if_splits)
  ultimately show ?thesis
    using fold_emerge_one_agrees
            [of emerge "(addArea vm a, m)" load_if_inexistent ps, OF e1 e2]
    by simp
qed

lemma initialEmerge_agrees_Map:
  assumes "bookkeeping_agrees vm m"
    and "initialEmerge Map_emergeBlock vm m blockpos_min blockpos_max load_if_inexistent
           = Inr (vm', m')"
  shows "bookkeeping_agrees vm' m'"
  using assms
  by (rule initialEmerge_agrees [rotated 2])
     (simp_all add: Map_emergeBlock_def getBlockNoCreateNoEx_fst getBlockNoCreateNoEx_lookup)

lemma ServerMap_emergeBlock_inserts_only:
  fixes m :: "'a ServerMap_scheme"
  shows "lookupBlock (snd (ServerMap_emergeBlock m p False)) p
           = fst (ServerMap_emergeBlock m p False)"
    and "q \<noteq> p \<Longrightarrow> lookupBlock (snd (ServerMap_emergeBlock m p False)) q = lookupBlock m q"
  unfolding ServerMap_emergeBlock_eq Let_def
  by (cases "lookupBlock m p"; cases "db_load (snd (getBlockNoCreateNoEx m p)) p";
      simp add: lookupBlock_setBlock getBlockNoCreateNoEx_lookup)+

lemma initialEmerge_agrees_ServerMap:
  assumes "bookkeeping_agrees vm m"
    and "initialEmerge ServerMap_emergeBlock vm m blockpos_min blockpos_max load_if_inexistent
           = Inr (vm', m')"
  shows "bookkeeping_agrees vm' m'"
  using assms
  by (rule initialEmerge_agrees [rotated 2]) (simp_all add: ServerMap_emergeBlock_inserts_only)

text \<open>
  Under this agreement every block that the store holds is one whose recorded prior
  state is not "missing", so that no node with real content is changed.
\<close>

lemma blitBackAll_after_agreement:
  assumes "\<not> isOrphan vm" and "bookkeeping_agrees vm m"
    and "lookupBlock m bp = Some b"
    and "getContent (data b off) \<noteq> CONTENT_IGNORE"
  shows "\<exists>m' modified_blocks b'.
           blitBackAll vm m False = Inr (m', modified_blocks)
           \<and> lookupBlock m' bp = Some b' \<and> data b' off = data b off"
proof -
  have fl: "\<forall>fl. (bp, fl) \<in> set (m_loaded_blocks vm) \<longrightarrow> fl AND VMANIP_BLOCK_DATA_INEXIST = 0"
    using assms(2,3) by (fastforce simp add: bookkeeping_agrees_def list_all_iff)
  obtain m' mods where r: "fold (blit_block vm False) (m_loaded_blocks vm) (m, []) = (m', mods)"
    by (cases "fold (blit_block vm False) (m_loaded_blocks vm) (m, [])")
  from fold_blit_block_preserves [OF fl assms(3) assms(4), of vm "[]"]
  obtain b' where "lookupBlock m' bp = Some b'" "data b' off = data b off"
    using r by auto
  then show ?thesis
    using assms(1) r by (simp add: blitBackAll_def)
qed

text \<open>
  How a block comes to be recorded as missing: \<open>initialEmerge\<close> visits a position that
  the window does not cover yet and finds no block for it.
\<close>

lemma emerge_one_records_missing:
  assumes "p \<notin> fst ` set (m_loaded_blocks vm)"
    and "lookupBlock m p = None"
  shows "m_loaded_blocks (fst (emerge_one Map_emergeBlock load_if_inexistent p (vm, m)))
           = m_loaded_blocks vm @ [(p, VMANIP_BLOCK_DATA_INEXIST)]"
proof -
  have "fst (getBlockNoCreateNoEx m p) = None"
    using assms(2) by (simp add: getBlockNoCreateNoEx_fst)
  then show ?thesis
    using assms(1)
    by (simp add: emerge_one_def Map_emergeBlock_def Let_def case_prod_unfold)
qed

section \<open>Observers: registration and dispatch\<close>

lemma std_set_insert_props:
  assumes "sorted xs" "distinct xs"
  shows "sorted (std_set_insert x xs)" "distinct (std_set_insert x xs)"
    "set (std_set_insert x xs) = insert x (set xs)"
  using assms by (auto simp add: std_set_insert_def sorted_insort distinct_insort set_insort_key)

lemma fold_addEventReceiver:
  assumes "sorted (m_event_receivers m)" "distinct (m_event_receivers m)"
  shows "sorted (m_event_receivers (fold (\<lambda>r m. addEventReceiver m r) regs m))
         \<and> distinct (m_event_receivers (fold (\<lambda>r m. addEventReceiver m r) regs m))
         \<and> set (m_event_receivers (fold (\<lambda>r m. addEventReceiver m r) regs m))
             = set (m_event_receivers m) \<union> set regs"
  using assms
proof (induction regs arbitrary: m)
  case Nil
  then show ?case by simp
next
  case (Cons r regs)
  have "sorted (m_event_receivers (addEventReceiver m r))"
    "distinct (m_event_receivers (addEventReceiver m r))"
    "set (m_event_receivers (addEventReceiver m r)) = insert r (set (m_event_receivers m))"
    using std_set_insert_props [OF Cons.prems, of r] by (simp_all add: addEventReceiver_def)
  with Cons.IH [of "addEventReceiver m r"] show ?case by auto
qed

lemma setNode_receivers:
  "m_event_receivers (snd (setNode m p n)) = m_event_receivers m"
proof -
  obtain block m' where g: "getBlockNoCreateNoEx m (getNodeBlockPos p) = (block, m')"
    by (cases "getBlockNoCreateNoEx m (getNodeBlockPos p)")
  have "m_event_receivers m' = m_event_receivers m"
    using getBlockNoCreateNoEx_eq [OF g] by simp
  then show ?thesis
    using g by (simp add: setNode_def Let_def split: option.splits)
qed

lemma addNodeAndUpdate_receivers:
  "m_event_receivers (snd (addNodeAndUpdate m p n rm)) = m_event_receivers m"
proof -
  obtain e m1 where s: "setNode m p n = (e, m1)"
    by (cases "setNode m p n")
  have r1: "m_event_receivers m1 = m_event_receivers m"
    using setNode_receivers [of m p n] s by simp
  obtain block m2 where g: "getBlockNoCreateNoEx m1 (getNodeBlockPos p) = (block, m2)"
    by (cases "getBlockNoCreateNoEx m1 (getNodeBlockPos p)")
  have "m_event_receivers m2 = m_event_receivers m1"
    using getBlockNoCreateNoEx_eq [OF g] by simp
  then show ?thesis
    using s g r1 by (simp add: addNodeAndUpdate_def Let_def split: option.splits)
qed

lemma addNodeAndUpdate_modified:
  "addNodeAndUpdate m p n rm = (Inr modified, m') \<Longrightarrow> map fst modified = [getNodeBlockPos p]"
  by (auto simp add: addNodeAndUpdate_def Let_def split: prod.splits option.splits)

lemma addNodeWithEvent_success:
  assumes "addNodeWithEvent m p n rm = (True, m', calls)"
  shows "\<exists>event. calls = dispatchEvent m' event
           \<and> m_event_receivers m' = m_event_receivers m
           \<and> ev_type event = MEET_ADDNODE \<and> ev_p event = p \<and> ev_n event = n
           \<and> modified_blocks event = [getNodeBlockPos p]"
proof -
  obtain r m1 where a: "addNodeAndUpdate m p n rm = (r, m1)"
    by (cases "addNodeAndUpdate m p n rm")
  have rec: "m_event_receivers m1 = m_event_receivers m"
    using addNodeAndUpdate_receivers [of m p n rm] a by simp
  show ?thesis
  proof (cases r)
    case (Inl e)
    then show ?thesis using assms a by (simp add: addNodeWithEvent_def Let_def)
  next
    case (Inr modified)
    have mf: "map fst modified = [getNodeBlockPos p]"
      using addNodeAndUpdate_modified a Inr by blast
    show ?thesis
      using assms a Inr rec mf
      by (auto simp add: addNodeWithEvent_def Let_def setModifiedBlocks_def
            MapEditEvent_default_def fold_push_back)
  qed
qed

text \<open>
  C3 (as amended). After the observers \<open>regs\<close> have been registered, in any order, on
  a map without observers, a successful \<open>addNodeWithEvent\<close> passes one and the same
  event to every registered observer exactly once, in ascending order of the observers'
  addresses: the order in which the \<^verbatim>\<open>std::set\<close> is iterated, which depends on the
  set of observers only and not on the order of registration.
\<close>

theorem addNodeWithEvent_dispatch_order:
  assumes "m_event_receivers m0 = []"
  shows "(let (succeeded, m', calls) =
            addNodeWithEvent (fold (\<lambda>r m. addEventReceiver m r) regs m0) p n remove_metadata
          in succeeded \<longrightarrow>
             (\<exists>event. map snd calls = replicate (length calls) event
                \<and> ev_p event = p \<and> ev_n event = n
                \<and> modified_blocks event = [getNodeBlockPos p])
             \<and> map fst calls = sorted_list_of_set (set regs))"
proof -
  define m where "m = fold (\<lambda>r m. addEventReceiver m r) regs m0"
  obtain succeeded m' calls where r:
    "addNodeWithEvent m p n remove_metadata = (succeeded, m', calls)"
    by (cases "addNodeWithEvent m p n remove_metadata")
  have "(\<exists>event. map snd calls = replicate (length calls) event
           \<and> ev_p event = p \<and> ev_n event = n
           \<and> modified_blocks event = [getNodeBlockPos p])
        \<and> map fst calls = sorted_list_of_set (set regs)" if succeeded
  proof -
    from addNodeWithEvent_success [of m p n remove_metadata m' calls] r that
    obtain event where ev: "calls = dispatchEvent m' event"
      "m_event_receivers m' = m_event_receivers m"
      "ev_p event = p" "ev_n event = n" "modified_blocks event = [getNodeBlockPos p]"
      by auto
    have f: "map fst calls = m_event_receivers m"
      using ev(1,2) by (simp add: dispatchEvent_def comp_def)
    have s: "map snd calls = replicate (length calls) event"
      using ev(1) by (simp add: dispatchEvent_def comp_def map_replicate_const)
    have "sorted (m_event_receivers m) \<and> distinct (m_event_receivers m)
          \<and> set (m_event_receivers m) = set regs"
      using fold_addEventReceiver [of m0 regs] assms by (simp add: m_def)
    then have "m_event_receivers m = sorted_list_of_set (set regs)"
      by (metis sorted_list_of_set.idem_if_sorted_distinct)
    then show ?thesis using f s ev(3-5) by auto
  qed
  then show ?thesis
    using r by (simp add: m_def)
qed

lemmas eval_defs =
  addNodeWithEvent_def addNodeAndUpdate_def setNode_def getBlockNoCreateNoEx_def
  getSectorNoGenerate_def setBlock_def addEventReceiver_def std_set_insert_def
  dispatchEvent_def setModifiedBlocks_def MapEditEvent_default_def
  example_ServerMap_def getNodeBlockPos_def MAP_BLOCKSIZE_def Let_def

theorem addNodeWithEvent_dispatch_order_witness:
  "m_event_receivers example_ServerMap = []
   \<and> fst (addNodeWithEvent (fold (\<lambda>r m. addEventReceiver m r) [2, 1] example_ServerMap)
            (v3size 0 0 0) (MapNode1 (CONTENT_ID 3)) True)
   \<and> map fst (snd (snd (addNodeWithEvent
                            (fold (\<lambda>r m. addEventReceiver m r) [2, 1] example_ServerMap)
                            (v3size 0 0 0) (MapNode1 (CONTENT_ID 3)) True)))
       = [1, 2]"
proof -
  have h: "m_event_receivers example_ServerMap = []"
    by (simp add: example_ServerMap_def)
  have s: "fst (addNodeWithEvent (fold (\<lambda>r m. addEventReceiver m r) [2, 1] example_ServerMap)
            (v3size 0 0 0) (MapNode1 (CONTENT_ID 3)) True)"
    by (simp add: eval_defs)
  have l: "sorted_list_of_set (set [2, 1 :: nat]) = [1, 2]"
    by (simp add: sorted_list_of_set_sort_remdups)
  show ?thesis
    using h s l addNodeWithEvent_dispatch_order
                  [OF h, of "[2, 1]" "v3size 0 0 0" "MapNode1 (CONTENT_ID 3)" True]
    by (simp add: case_prod_unfold Let_def)
qed

text \<open>
  Delivery in registration order fails: the observer at address 2 is registered
  before the observer at address 1, and the event is delivered to 1 first.
\<close>

theorem addNodeWithEvent_dispatch_order_counterexample:
  "fst (addNodeWithEvent (addEventReceiver (addEventReceiver example_ServerMap 2) 1)
          (v3size 0 0 0) (MapNode1 (CONTENT_ID 3)) True)
   \<and> map fst (snd (snd (addNodeWithEvent
                            (addEventReceiver (addEventReceiver example_ServerMap 2) 1)
                            (v3size 0 0 0) (MapNode1 (CONTENT_ID 3)) True))) = [1, 2]
   \<and> [1, 2] \<noteq> [2, 1 :: MapEventReceiver]"
  by (simp add: eval_defs)

section \<open>forEachNodeInArea\<close>

lemma run_visitor_append:
  "run_visitor func (xs @ ys) s =
     (let (continue, s1, calls) = run_visitor func xs s
      in if \<not> continue then (False, s1, calls)
         else (let (c, s2, calls') = run_visitor func ys s1 in (c, s2, calls @ calls')))"
  by (induction xs arbitrary: s) (simp_all add: Let_def split: prod.splits)

lemma visit_block_run_visitor:
  "visit_block func block basep rels s =
     run_visitor func
       (map (\<lambda>rel. (v3_add basep rel,
                     (case block of
                        Some b \<Rightarrow> getNodeNoCheck b (X rel) (Y rel) (Z rel)
                      | None \<Rightarrow> MapNode1 CONTENT_IGNORE))) rels) s"
  by (induction rels arbitrary: s) (simp_all add: Let_def split: prod.splits)

lemma visit_blocks_run_visitor:
  "visit_blocks func minp maxp bps m s = (c, m', s', calls) \<Longrightarrow>
     run_visitor func (concat (map (block_calls m minp maxp) bps)) s = (c, s', calls)
     \<and> m_sectors m' = m_sectors m \<and> m_event_receivers m' = m_event_receivers m"
proof (induction bps arbitrary: m s c m' s' calls)
  case Nil
  then show ?case by simp
next
  case (Cons bp bps)
  obtain block m1 where g: "getBlockNoCreateNoEx m bp = (block, m1)"
    by (cases "getBlockNoCreateNoEx m bp")
  have blk: "block = lookupBlock m bp" and sec: "m_sectors m1 = m_sectors m"
    and rec: "m_event_receivers m1 = m_event_receivers m"
    and look: "\<And>q. lookupBlock m1 q = lookupBlock m q"
    using getBlockNoCreateNoEx_eq [OF g] by simp_all
  have bc: "\<And>q. block_calls m1 minp maxp q = block_calls m minp maxp q"
    by (simp add: block_calls_def look)
  obtain c1 s1 calls1 where v:
    "visit_block func block (v3_scale bp MAP_BLOCKSIZE) (offsets_in_block minp maxp bp) s
       = (c1, s1, calls1)"
    by (cases "visit_block func block (v3_scale bp MAP_BLOCKSIZE)
                 (offsets_in_block minp maxp bp) s")
  have r1: "run_visitor func (block_calls m minp maxp bp) s = (c1, s1, calls1)"
    using v unfolding visit_block_run_visitor block_calls_def blk by simp
  show ?case
  proof (cases c1)
    case False
    then show ?thesis
      using Cons.prems g v r1 sec rec
      by (simp add: run_visitor_append Let_def)
  next
    case True
    obtain c2 m2 s2 calls2 where rest:
      "visit_blocks func minp maxp bps m1 s1 = (c2, m2, s2, calls2)"
      by (cases "visit_blocks func minp maxp bps m1 s1")
    from Cons.IH [OF rest]
    have ih: "run_visitor func (concat (map (block_calls m minp maxp) bps)) s1 = (c2, s2, calls2)"
      "m_sectors m2 = m_sectors m1" "m_event_receivers m2 = m_event_receivers m1"
      by (simp_all add: bc)
    show ?thesis
      using Cons.prems g v r1 True rest ih sec rec
      by (simp add: run_visitor_append Let_def)
  qed
qed

lemma run_visitor_prefix:
  "run_visitor func xs s = (c, s', calls) \<Longrightarrow>
     (\<exists>k. calls = take k xs) \<and> (c \<longrightarrow> calls = xs) \<and> (\<not> c \<longrightarrow> calls \<noteq> [])"
proof (induction xs arbitrary: s c s' calls)
  case Nil
  then show ?case by simp
next
  case (Cons x xs)
  obtain continue s1 where f: "func s (fst x) (snd x) = (continue, s1)"
    by (cases "func s (fst x) (snd x)")
  show ?case
  proof (cases continue)
    case False
    then have "calls = take 1 (x # xs)" "\<not> c"
      using Cons.prems f by simp_all
    then show ?thesis by (metis list.distinct(1) take_Suc_Cons take_0 One_nat_def)
  next
    case True
    obtain c2 s2 calls2 where r: "run_visitor func xs s1 = (c2, s2, calls2)"
      by (cases "run_visitor func xs s1")
    from Cons.IH [OF r] obtain k where
      k: "calls2 = take k xs" and all: "c2 \<longrightarrow> calls2 = xs" 
      by blast
    have "calls = x # calls2" "c = c2"
      using Cons.prems f True r by simp_all
    moreover have "x # take k xs = take (Suc k) (x # xs)" by simp
    ultimately show ?thesis using k all by (metis list.distinct(1))
  qed
qed

lemma run_visitor_pure:
  "run_visitor (\<lambda>s p n. (P p n, s)) xs s =
     (list_all (\<lambda>c. P (fst c) (snd c)) xs, s,
      takeWhile (\<lambda>c. P (fst c) (snd c)) xs @ take 1 (dropWhile (\<lambda>c. P (fst c) (snd c)) xs))"
  by (induction xs) (simp_all add: Let_def)

lemma axis_ok_bounds:
  assumes "axis_ok mn mx b off"
  shows "0 \<le> off" "off < MAP_BLOCKSIZE"
    "mn \<le> b * MAP_BLOCKSIZE + off" "b * MAP_BLOCKSIZE + off \<le> mx"
proof -
  let ?S = MAP_BLOCKSIZE
  have S: "0 < ?S" by (rule MAP_BLOCKSIZE_pos)
  have lo: "rangelim (mn - b * ?S) 0 (?S - 1) \<le> off"
    and hi: "off \<le> rangelim (mx - b * ?S) 0 (?S - 1)"
    and b1: "mn div ?S \<le> b" and b2: "b \<le> mx div ?S"
    using assms by (simp_all add: axis_ok_def)
  show "0 \<le> off" using lo S by (simp add: rangelim_def split: if_splits)
  show "off < ?S" using hi S by (simp add: rangelim_def split: if_splits)
  have "mn < mn div ?S * ?S + ?S"
    by (rule floor_div_bracket(2) [OF S])
  moreover have "mn div ?S * ?S \<le> b * ?S"
    using b1 S by (simp add: mult_right_mono)
  ultimately have "mn - b * ?S \<le> ?S - 1" by linarith
  then show "mn \<le> b * ?S + off"
    using lo by (simp add: rangelim_def split: if_splits)
  have "mx div ?S * ?S \<le> mx"
    by (rule floor_div_bracket(1) [OF S])
  moreover have "b * ?S \<le> mx div ?S * ?S"
    using b2 S by (simp add: mult_right_mono)
  ultimately have "0 \<le> mx - b * ?S" by linarith
  then show "b * ?S + off \<le> mx"
    using hi by (simp add: rangelim_def split: if_splits)
qed

lemma axis_ok_div_mod:
  assumes "mn \<le> c" "c \<le> mx"
  shows "axis_ok mn mx (c div MAP_BLOCKSIZE) (c mod MAP_BLOCKSIZE)"
proof -
  let ?S = MAP_BLOCKSIZE
  have S: "0 < ?S" by (rule MAP_BLOCKSIZE_pos)
  have m: "c mod ?S = c - c div ?S * ?S"
    by (simp add: minus_div_mult_eq_mod)
  have r: "0 \<le> c mod ?S" "c mod ?S < ?S"
    using S by simp_all
  have "mn div ?S \<le> c div ?S" "c div ?S \<le> mx div ?S"
    using assms S by (simp_all add: zdiv_mono1)
  moreover have "rangelim (mn - c div ?S * ?S) 0 (?S - 1) \<le> c mod ?S"
    using assms(1) r m by (simp add: rangelim_def)
  moreover have "c mod ?S \<le> rangelim (mx - c div ?S * ?S) 0 (?S - 1)"
    using assms(2) r m by (simp add: rangelim_def)
  ultimately show ?thesis by (simp add: axis_ok_def)
qed

lemma block_offset_div:
  assumes "0 \<le> off" "off < MAP_BLOCKSIZE"
  shows "(b * MAP_BLOCKSIZE + off) div MAP_BLOCKSIZE = b"
  using assms MAP_BLOCKSIZE_pos by simp

lemma set_blocks_of_area:
  "bp \<in> set (blocks_of_area minp maxp) \<longleftrightarrow>
     X minp div MAP_BLOCKSIZE \<le> X bp \<and> X bp \<le> X maxp div MAP_BLOCKSIZE
     \<and> Y minp div MAP_BLOCKSIZE \<le> Y bp \<and> Y bp \<le> Y maxp div MAP_BLOCKSIZE
     \<and> Z minp div MAP_BLOCKSIZE \<le> Z bp \<and> Z bp \<le> Z maxp div MAP_BLOCKSIZE"
proof -
  have "bp \<in> set (blocks_of_area minp maxp) \<longleftrightarrow>
        (\<exists>b_z \<in> {Z minp div MAP_BLOCKSIZE..Z maxp div MAP_BLOCKSIZE}.
         \<exists>b_x \<in> {X minp div MAP_BLOCKSIZE..X maxp div MAP_BLOCKSIZE}.
         \<exists>b_y \<in> {Y minp div MAP_BLOCKSIZE..Y maxp div MAP_BLOCKSIZE}.
           bp = v3size b_x b_y b_z)"
    by (auto simp add: blocks_of_area_def getNodeBlockPos_def Let_def)
  also have "\<dots> \<longleftrightarrow>
     X minp div MAP_BLOCKSIZE \<le> X bp \<and> X bp \<le> X maxp div MAP_BLOCKSIZE
     \<and> Y minp div MAP_BLOCKSIZE \<le> Y bp \<and> Y bp \<le> Y maxp div MAP_BLOCKSIZE
     \<and> Z minp div MAP_BLOCKSIZE \<le> Z bp \<and> Z bp \<le> Z maxp div MAP_BLOCKSIZE"
    by (cases bp) auto
  finally show ?thesis .
qed

lemma set_offsets_in_block:
  "rel \<in> set (offsets_in_block minp maxp bp) \<longleftrightarrow>
     rangelim (X minp - X bp * MAP_BLOCKSIZE) 0 (MAP_BLOCKSIZE - 1) \<le> X rel
     \<and> X rel \<le> rangelim (X maxp - X bp * MAP_BLOCKSIZE) 0 (MAP_BLOCKSIZE - 1)
     \<and> rangelim (Y minp - Y bp * MAP_BLOCKSIZE) 0 (MAP_BLOCKSIZE - 1) \<le> Y rel
     \<and> Y rel \<le> rangelim (Y maxp - Y bp * MAP_BLOCKSIZE) 0 (MAP_BLOCKSIZE - 1)
     \<and> rangelim (Z minp - Z bp * MAP_BLOCKSIZE) 0 (MAP_BLOCKSIZE - 1) \<le> Z rel
     \<and> Z rel \<le> rangelim (Z maxp - Z bp * MAP_BLOCKSIZE) 0 (MAP_BLOCKSIZE - 1)"
proof -
  have "rel \<in> set (offsets_in_block minp maxp bp) \<longleftrightarrow>
        (\<exists>z \<in> {rangelim (Z minp - Z bp * MAP_BLOCKSIZE) 0 (MAP_BLOCKSIZE - 1)
                  ..rangelim (Z maxp - Z bp * MAP_BLOCKSIZE) 0 (MAP_BLOCKSIZE - 1)}.
         \<exists>y \<in> {rangelim (Y minp - Y bp * MAP_BLOCKSIZE) 0 (MAP_BLOCKSIZE - 1)
                  ..rangelim (Y maxp - Y bp * MAP_BLOCKSIZE) 0 (MAP_BLOCKSIZE - 1)}.
         \<exists>x \<in> {rangelim (X minp - X bp * MAP_BLOCKSIZE) 0 (MAP_BLOCKSIZE - 1)
                  ..rangelim (X maxp - X bp * MAP_BLOCKSIZE) 0 (MAP_BLOCKSIZE - 1)}.
           rel = v3size x y z)"
    by (auto simp add: offsets_in_block_def v3_scale_def Let_def)
  also have "\<dots> \<longleftrightarrow>
     rangelim (X minp - X bp * MAP_BLOCKSIZE) 0 (MAP_BLOCKSIZE - 1) \<le> X rel
     \<and> X rel \<le> rangelim (X maxp - X bp * MAP_BLOCKSIZE) 0 (MAP_BLOCKSIZE - 1)
     \<and> rangelim (Y minp - Y bp * MAP_BLOCKSIZE) 0 (MAP_BLOCKSIZE - 1) \<le> Y rel
     \<and> Y rel \<le> rangelim (Y maxp - Y bp * MAP_BLOCKSIZE) 0 (MAP_BLOCKSIZE - 1)
     \<and> rangelim (Z minp - Z bp * MAP_BLOCKSIZE) 0 (MAP_BLOCKSIZE - 1) \<le> Z rel
     \<and> Z rel \<le> rangelim (Z maxp - Z bp * MAP_BLOCKSIZE) 0 (MAP_BLOCKSIZE - 1)"
    by (cases rel) auto
  finally show ?thesis .
qed

lemma in_area_iff:
  "bp \<in> set (blocks_of_area minp maxp) \<and> rel \<in> set (offsets_in_block minp maxp bp)
     \<longleftrightarrow> in_area minp maxp bp rel"
  unfolding set_blocks_of_area set_offsets_in_block in_area_def axis_ok_def
  by auto

lemma in_area_position:
  assumes "in_area minp maxp bp rel"
  shows "in_box minp maxp (v3_add (v3_scale bp MAP_BLOCKSIZE) rel)"
    and "getNodeBlockPos (v3_add (v3_scale bp MAP_BLOCKSIZE) rel) = bp"
    and "v3_sub (v3_add (v3_scale bp MAP_BLOCKSIZE) rel) (v3_scale bp MAP_BLOCKSIZE) = rel"
proof -
  have x: "axis_ok (X minp) (X maxp) (X bp) (X rel)"
    and y: "axis_ok (Y minp) (Y maxp) (Y bp) (Y rel)"
    and z: "axis_ok (Z minp) (Z maxp) (Z bp) (Z rel)"
    using assms by (simp_all add: in_area_def)
  show "in_box minp maxp (v3_add (v3_scale bp MAP_BLOCKSIZE) rel)"
    using axis_ok_bounds(3,4) [OF x] axis_ok_bounds(3,4) [OF y] axis_ok_bounds(3,4) [OF z]
    by (simp add: in_box_def v3_add_def v3_scale_def)
  show "getNodeBlockPos (v3_add (v3_scale bp MAP_BLOCKSIZE) rel) = bp"
    using block_offset_div [OF axis_ok_bounds(1,2) [OF x], of "X bp"]
          block_offset_div [OF axis_ok_bounds(1,2) [OF y], of "Y bp"]
          block_offset_div [OF axis_ok_bounds(1,2) [OF z], of "Z bp"]
    by (simp add: getNodeBlockPos_def v3_add_def v3_scale_def)
  show "v3_sub (v3_add (v3_scale bp MAP_BLOCKSIZE) rel) (v3_scale bp MAP_BLOCKSIZE) = rel"
    by (simp add: v3_sub_def v3_add_def v3_scale_def)
qed

lemma in_box_in_area:
  assumes "in_box minp maxp p"
  shows "in_area minp maxp (getNodeBlockPos p)
           (v3_sub p (v3_scale (getNodeBlockPos p) MAP_BLOCKSIZE))"
    and "v3_add (v3_scale (getNodeBlockPos p) MAP_BLOCKSIZE)
           (v3_sub p (v3_scale (getNodeBlockPos p) MAP_BLOCKSIZE)) = p"
proof -
  have m: "\<And>c. c - c div MAP_BLOCKSIZE * MAP_BLOCKSIZE = c mod MAP_BLOCKSIZE"
    by (simp add: minus_div_mult_eq_mod)
  show "in_area minp maxp (getNodeBlockPos p)
           (v3_sub p (v3_scale (getNodeBlockPos p) MAP_BLOCKSIZE))"
    using assms
    by (simp add: in_area_def in_box_def getNodeBlockPos_def v3_sub_def v3_scale_def m
          axis_ok_div_mod)
  show "v3_add (v3_scale (getNodeBlockPos p) MAP_BLOCKSIZE)
           (v3_sub p (v3_scale (getNodeBlockPos p) MAP_BLOCKSIZE)) = p"
    by (simp add: v3_add_def v3_sub_def v3_scale_def)
qed

lemma set_area_calls_positions:
  "set (map fst (area_calls m minp maxp)) = {p. in_box minp maxp p}"
proof (rule set_eqI)
  fix p
  have "p \<in> set (map fst (area_calls m minp maxp)) \<longleftrightarrow>
        (\<exists>bp rel. in_area minp maxp bp rel \<and> p = v3_add (v3_scale bp MAP_BLOCKSIZE) rel)"
    unfolding in_area_iff [symmetric]
    by (auto simp add: area_calls_def block_calls_def image_iff)
  also have "\<dots> \<longleftrightarrow> in_box minp maxp p"
    using in_area_position(1) in_box_in_area by metis
  finally show "p \<in> set (map fst (area_calls m minp maxp)) \<longleftrightarrow> p \<in> {p. in_box minp maxp p}"
    by simp
qed

lemma area_calls_nodes:
  assumes "c \<in> set (area_calls m minp maxp)"
  shows "snd c = node_or_ignore m (fst c)"
proof -
  from assms obtain bp rel where bp: "bp \<in> set (blocks_of_area minp maxp)"
    and rel: "rel \<in> set (offsets_in_block minp maxp bp)"
    and c: "c = (v3_add (v3_scale bp MAP_BLOCKSIZE) rel,
                 (case lookupBlock m bp of
                    Some b \<Rightarrow> getNodeNoCheck b (X rel) (Y rel) (Z rel)
                  | None \<Rightarrow> MapNode1 CONTENT_IGNORE))"
    by (auto simp add: area_calls_def block_calls_def)
  have a: "in_area minp maxp bp rel"
    using bp rel in_area_iff by blast
  show ?thesis
    using in_area_position(2,3) [OF a] c
    by (simp add: node_or_ignore_def getNodeNoCheck_def split: option.splits)
qed

lemma distinct_concat_map_key:
  assumes "distinct xs"
    and "\<And>x. x \<in> set xs \<Longrightarrow> distinct (f x)"
    and "\<And>x y. x \<in> set xs \<Longrightarrow> y \<in> set (f x) \<Longrightarrow> key y = x"
  shows "distinct (concat (map f xs))"
  using assms
proof (induction xs)
  case Nil
  then show ?case by simp
next
  case (Cons x xs)
  have "set (f x) \<inter> set (concat (map f xs)) = {}"
  proof (rule ccontr)
    assume "set (f x) \<inter> set (concat (map f xs)) \<noteq> {}"
    then obtain y x' where "y \<in> set (f x)" "x' \<in> set xs" "y \<in> set (f x')"
      by auto
    then have "key y = x" "key y = x'"
      using Cons.prems(3) by simp_all
    then show False
      using Cons.prems(1) \<open>x' \<in> set xs\<close> by simp
  qed
  moreover have "distinct (concat (map f xs))"
    using Cons by simp
  ultimately show ?case
    using Cons.prems(2) by simp
qed

lemma distinct_comprehension3:
  assumes "\<And>a b c. k1 (f a b c) = a" and "\<And>a b c. k2 (f a b c) = b"
    and "\<And>a b c. k3 (f a b c) = c"
    and "distinct as" and "distinct bs" and "distinct cs"
  shows "distinct (concat (map (\<lambda>a. concat (map (\<lambda>b. map (\<lambda>c. f a b c) cs) bs)) as))"
proof (rule distinct_concat_map_key [where key = k1])
  show "distinct as" by (rule assms(4))
next
  fix a
  show "distinct (concat (map (\<lambda>b. map (\<lambda>c. f a b c) cs) bs))"
  proof (rule distinct_concat_map_key [where key = k2])
    show "distinct bs" by (rule assms(5))
  next
    fix b
    have "inj_on (\<lambda>c. f a b c) (set cs)"
      by (rule inj_on_inverseI [where g = k3]) (simp add: assms(3))
    then show "distinct (map (\<lambda>c. f a b c) cs)"
      using assms(6) by (simp add: distinct_map)
  next
    fix b y
    assume "y \<in> set (map (\<lambda>c. f a b c) cs)"
    then show "k2 y = b" using assms(2) by auto
  qed
next
  fix a y
  assume "y \<in> set (concat (map (\<lambda>b. map (\<lambda>c. f a b c) cs) bs))"
  then show "k1 y = a" using assms(1) by auto
qed

lemma distinct_blocks_of_area: "distinct (blocks_of_area minp maxp)"
  unfolding blocks_of_area_def Let_def
  by (rule distinct_comprehension3 [where ?k1.0 = Z and ?k2.0 = X and ?k3.0 = Y]) simp_all

lemma distinct_offsets_in_block: "distinct (offsets_in_block minp maxp bp)"
  unfolding offsets_in_block_def Let_def
  by (rule distinct_comprehension3 [where ?k1.0 = Z and ?k2.0 = Y and ?k3.0 = X]) simp_all

lemma distinct_area_calls_positions:
  "distinct (map fst (area_calls m minp maxp))"
proof -
  let ?f = "\<lambda>bp. map (\<lambda>rel. v3_add (v3_scale bp MAP_BLOCKSIZE) rel)
                     (offsets_in_block minp maxp bp)"
  have eq: "map fst (area_calls m minp maxp) = concat (map ?f (blocks_of_area minp maxp))"
    by (simp add: area_calls_def block_calls_def map_concat comp_def)
  have "distinct (concat (map ?f (blocks_of_area minp maxp)))"
  proof (rule distinct_concat_map_key [where key = getNodeBlockPos])
    show "distinct (blocks_of_area minp maxp)"
      by (rule distinct_blocks_of_area)
  next
    fix bp
    have "inj_on (\<lambda>rel. v3_add (v3_scale bp MAP_BLOCKSIZE) rel)
            (set (offsets_in_block minp maxp bp))"
      by (rule inj_on_inverseI [where g = "\<lambda>p. v3_sub p (v3_scale bp MAP_BLOCKSIZE)"])
         (simp add: v3_sub_def v3_add_def v3_scale_def)
    then show "distinct (?f bp)"
      using distinct_offsets_in_block by (simp add: distinct_map)
  next
    fix bp y
    assume bp: "bp \<in> set (blocks_of_area minp maxp)" and y: "y \<in> set (?f bp)"
    then obtain rel where rel: "rel \<in> set (offsets_in_block minp maxp bp)"
      and yv: "y = v3_add (v3_scale bp MAP_BLOCKSIZE) rel"
      by auto
    have "in_area minp maxp bp rel"
      using bp rel in_area_iff by blast
    then show "getNodeBlockPos y = bp"
      unfolding yv by (rule in_area_position(2))
  qed
  then show ?thesis by (simp only: eq)
qed

text \<open>
  C4. \<open>forEachNodeInArea m minp maxp func\<close> calls the visitor on the positions of the
  inclusive box from \<open>minp\<close> to \<open>maxp\<close>, each at most once and in a fixed order, until
  the visitor returns false, after which no further position is visited; when the
  visitor never returns false, it is called on exactly the positions of the box, each
  exactly once. A position whose block is not loaded is visited with the ignore
  placeholder node. The traversal leaves the sectors of the map as they are.
\<close>

theorem forEachNodeInArea_visits_box:
  assumes "forEachNodeInArea m minp maxp func s = (completed, m', s', calls)"
  shows "run_visitor func (area_calls m minp maxp) s = (completed, s', calls)
         \<and> (\<exists>k. calls = take k (area_calls m minp maxp))
         \<and> (completed \<longrightarrow> calls = area_calls m minp maxp)
         \<and> (\<not> completed \<longrightarrow> calls \<noteq> [])
         \<and> distinct (map fst (area_calls m minp maxp))
         \<and> set (map fst (area_calls m minp maxp)) = {p. in_box minp maxp p}
         \<and> distinct (map fst calls)
         \<and> set (map fst calls) \<subseteq> {p. in_box minp maxp p}
         \<and> (\<forall>c \<in> set calls. snd c = node_or_ignore m (fst c))
         \<and> m_sectors m' = m_sectors m
         \<and> snd (snd (snd (forEachNodeInArea m minp maxp (\<lambda>t p n. (P p n, t)) s)))
             = takeWhile (\<lambda>c. P (fst c) (snd c)) (area_calls m minp maxp)
               @ take 1 (dropWhile (\<lambda>c. P (fst c) (snd c)) (area_calls m minp maxp))"
proof -
  from visit_blocks_run_visitor [OF assms [unfolded forEachNodeInArea_def]]
  have run: "run_visitor func (area_calls m minp maxp) s = (completed, s', calls)"
    and sec: "m_sectors m' = m_sectors m"
    by (simp_all add: area_calls_def)
  from run_visitor_prefix [OF run] obtain k where
    k: "calls = take k (area_calls m minp maxp)"
    and all: "completed \<longrightarrow> calls = area_calls m minp maxp"
    and ne: "\<not> completed \<longrightarrow> calls \<noteq> []"
    by blast
  have d: "distinct (map fst (area_calls m minp maxp))"
    by (rule distinct_area_calls_positions)
  have st: "set (map fst (area_calls m minp maxp)) = {p. in_box minp maxp p}"
    by (rule set_area_calls_positions)
  have sub: "set calls \<subseteq> set (area_calls m minp maxp)"
    unfolding k by (rule set_take_subset)
  have dc: "distinct (map fst calls)"
    using d unfolding k by (simp add: take_map [symmetric] distinct_take)
  have sc: "set (map fst calls) \<subseteq> {p. in_box minp maxp p}"
    using sub st by auto
  have nodes: "\<forall>c \<in> set calls. snd c = node_or_ignore m (fst c)"
    using sub area_calls_nodes by blast
  obtain pc pm ps pcalls where
    pure: "forEachNodeInArea m minp maxp (\<lambda>t p n. (P p n, t)) s = (pc, pm, ps, pcalls)"
    by (cases "forEachNodeInArea m minp maxp (\<lambda>t p n. (P p n, t)) s")
  from visit_blocks_run_visitor [OF pure [unfolded forEachNodeInArea_def]]
  have "run_visitor (\<lambda>t p n. (P p n, t)) (area_calls m minp maxp) s = (pc, ps, pcalls)"
    by (simp add: area_calls_def)
  then have stop: "snd (snd (snd (forEachNodeInArea m minp maxp (\<lambda>t p n. (P p n, t)) s)))
             = takeWhile (\<lambda>c. P (fst c) (snd c)) (area_calls m minp maxp)
               @ take 1 (dropWhile (\<lambda>c. P (fst c) (snd c)) (area_calls m minp maxp))"
    unfolding run_visitor_pure pure by simp
  show ?thesis
    using run k all ne d st dc sc nodes sec stop by blast
qed

theorem forEachNodeInArea_visits_box_witness:
  "forEachNodeInArea example_ServerMap (v3size (- 1) 0 0) (v3size 0 0 0)
       (\<lambda>s p n. (True, Suc s)) (0 :: nat)
     = (True, example_ServerMap\<lparr>m_sector_cache := Some (v2size 0 0)\<rparr>, 2,
        [(v3size (- 1) 0 0, MapNode1 CONTENT_IGNORE), (v3size 0 0 0, MapNode1 CONTENT_AIR)])
   \<and> area_calls example_ServerMap (v3size (- 1) 0 0) (v3size 0 0 0)
     = [(v3size (- 1) 0 0, MapNode1 CONTENT_IGNORE), (v3size 0 0 0, MapNode1 CONTENT_AIR)]
   \<and> set (map fst (area_calls example_ServerMap (v3size (- 1) 0 0) (v3size 0 0 0)))
     = {p. in_box (v3size (- 1) 0 0) (v3size 0 0 0) p}
   \<and> forEachNodeInArea example_ServerMap (v3size (- 1) 0 0) (v3size 0 0 0)
       (\<lambda>s p n. (getContent n \<noteq> CONTENT_IGNORE, Suc s)) (0 :: nat)
     = (False, example_ServerMap, 1, [(v3size (- 1) 0 0, MapNode1 CONTENT_IGNORE)])
   \<and> node_or_ignore example_ServerMap (v3size (- 1) 0 0) = MapNode1 CONTENT_IGNORE"
proof -
  have b: "blocks_of_area (v3size (- 1) 0 0) (v3size 0 0 0) = [v3size (- 1) 0 0, v3size 0 0 0]"
    by (simp add: blocks_of_area_def getNodeBlockPos_def MAP_BLOCKSIZE_def upto.simps)
  have o1: "offsets_in_block (v3size (- 1) 0 0) (v3size 0 0 0) (v3size (- 1) 0 0)
              = [v3size 15 0 0]"
    by (simp add: offsets_in_block_def v3_scale_def rangelim_def MAP_BLOCKSIZE_def upto.simps)
  have o2: "offsets_in_block (v3size (- 1) 0 0) (v3size 0 0 0) (v3size 0 0 0) = [v3size 0 0 0]"
    by (simp add: offsets_in_block_def v3_scale_def rangelim_def MAP_BLOCKSIZE_def upto.simps)
  have f1: "forEachNodeInArea example_ServerMap (v3size (- 1) 0 0) (v3size 0 0 0)
       (\<lambda>s p n. (True, Suc s)) (0 :: nat)
     = (True, example_ServerMap\<lparr>m_sector_cache := Some (v2size 0 0)\<rparr>, 2,
        [(v3size (- 1) 0 0, MapNode1 CONTENT_IGNORE), (v3size 0 0 0, MapNode1 CONTENT_AIR)])"
    by (simp add: forEachNodeInArea_def b o1 o2 getBlockNoCreateNoEx_def
          getSectorNoGenerate_def example_ServerMap_def example_block_def v3_scale_def
          v3_add_def MAP_BLOCKSIZE_def getNodeNoCheck_def Let_def)
  have f2: "forEachNodeInArea example_ServerMap (v3size (- 1) 0 0) (v3size 0 0 0)
       (\<lambda>s p n. (getContent n \<noteq> CONTENT_IGNORE, Suc s)) (0 :: nat)
     = (False, example_ServerMap, 1, [(v3size (- 1) 0 0, MapNode1 CONTENT_IGNORE)])"
    by (simp add: forEachNodeInArea_def b o1 o2 getBlockNoCreateNoEx_def
          getSectorNoGenerate_def example_ServerMap_def example_block_def v3_scale_def
          v3_add_def MAP_BLOCKSIZE_def getNodeNoCheck_def Let_def MapNode1_def)
  note t1 = forEachNodeInArea_visits_box [OF f1, of "\<lambda>p n. True"]
  note t2 = forEachNodeInArea_visits_box [OF f2, of "\<lambda>p n. True"]
  have a: "area_calls example_ServerMap (v3size (- 1) 0 0) (v3size 0 0 0)
     = [(v3size (- 1) 0 0, MapNode1 CONTENT_IGNORE), (v3size 0 0 0, MapNode1 CONTENT_AIR)]"
    using t1 by (elim conjE) simp
  have st: "set (map fst (area_calls example_ServerMap (v3size (- 1) 0 0) (v3size 0 0 0)))
     = {p. in_box (v3size (- 1) 0 0) (v3size 0 0 0) p}"
    using t1 by (elim conjE)
  have "\<forall>c \<in> set [(v3size (- 1) 0 0, MapNode1 CONTENT_IGNORE)].
          snd c = node_or_ignore example_ServerMap (fst c)"
    using t2 by (elim conjE)
  then have n: "node_or_ignore example_ServerMap (v3size (- 1) 0 0) = MapNode1 CONTENT_IGNORE"
    by simp
  show ?thesis
    using f1 f2 a st n by (intro conjI)
qed


end
